theory Spec2Isabelle
  imports Complex_Main
begin

section \<open>The matching core of \<open>MatchEngine.cpp\<close>\<close>

text \<open>
  This theory embeds the classes \<open>Order\<close>, \<open>PriceLevel\<close> and \<open>OrderBook\<close> of
  \<open>src/MatchAngin/MatchEngine.cpp\<close>. The mutex of the book serialises its public methods,
  so each method is a function from the book before the call to an outcome holding the
  book after it.

  Conventions of the embedding.
  \<^item> A \<open>double\<close> price is a rational number: comparison, \<open>max_element\<close> and
    \<open>min_element\<close> on finite doubles are exact. NaN and the infinities are outside the model.
  \<^item> A C++ \<open>int\<close> is a HOL \<open>int\<close> that holds a 32-bit value. The two additions of
    \<open>add_order\<close> (\<open>current_order_id++\<close> and \<open>total_quantity += order->quantity\<close>) are
    not range-checked in the source; their result wraps around as two's complement does on
    the machine (\<open>int32\<close>): one more than 2147483647 is -2147483648. The subtractions of
    the source take a part of a quantity away from it; on every book that satisfies the
    invariant their results lie between 0 and the value subtracted from, and they are
    written without wrap-around.
  \<^item> \<open>std::shared_ptr<Order>\<close> is an address into \<open>heap\<close>, the list of all \<open>Order\<close>
    objects allocated so far. A level's queue and \<open>order_id_map\<close> hold addresses, so a
    write through one pointer is seen through the other, as in the source. Objects are never
    deallocated in the model; an object that no queue and no index entry points to is
    unobservable.
  \<^item> The field \<open>id\<close> of \<open>Order\<close> is called \<open>order_id\<close>, and the field \<open>price\<close> of
    \<open>PriceLevel\<close> is called \<open>level_price\<close>.
\<close>

subsection \<open>Data\<close>

type_synonym addr = nat

record Order =
  order_id :: int
  is_buy :: bool
  quantity :: int
  price :: rat
  client_id :: int

record PriceLevel =
  level_price :: rat
  orders :: "addr list"
  total_quantity :: int

record OrderBook =
  heap :: "Order list"
  bid_prices :: "rat set"
  ask_prices :: "rat set"
  bid_price_map :: "rat \<rightharpoonup> PriceLevel"
  ask_price_map :: "rat \<rightharpoonup> PriceLevel"
  order_id_map :: "int \<rightharpoonup> addr"
  current_order_id :: int

text \<open>
  What a call does: it returns a value, it throws a C++ exception (the book stays usable),
  or it runs into undefined behaviour that has no reading as a value (a null \<open>shared_ptr\<close>
  dereferenced, a \<open>double\<close> outside the range of \<open>int\<close> converted to \<open>int\<close>), after
  which there is no book to speak of: \<open>Undefined\<close>.
\<close>

datatype error = InvalidArgument | OrderNotFound | OrderNotFoundInLevel | OutOfRange

datatype 'a outcome = Returned 'a OrderBook | Threw error OrderBook | Undefined

definition INT_MAX :: int where
  "INT_MAX = 2147483647"

definition INT_MIN :: int where
  "INT_MIN = - 2147483648"

text \<open>
  The \<open>int\<close> that the mathematical result \<open>x\<close> of an \<open>int\<close> addition is stored as: \<open>x\<close>
  itself when it lies between \<open>INT_MIN\<close> and \<open>INT_MAX\<close>, and otherwise the value in that
  range that differs from \<open>x\<close> by a multiple of \<open>2^32\<close>.
\<close>

definition int32 :: "int \<Rightarrow> int" where
  "int32 x = (x + 2147483648) mod 4294967296 - 2147483648"

text \<open>The constructor \<open>OrderBook() : current_order_id(0)\<close>; the containers start empty.\<close>

definition empty_book :: OrderBook where
  "empty_book = \<lparr>heap = [], bid_prices = {}, ask_prices = {},
     bid_price_map = Map.empty, ask_price_map = Map.empty,
     order_id_map = Map.empty, current_order_id = 0\<rparr>"

subsection \<open>\<open>PriceLevel\<close>\<close>

text \<open>\<open>PriceLevel(double prc) : price(prc), total_quantity(0)\<close>.\<close>

definition new_level :: "rat \<Rightarrow> PriceLevel" where
  "new_level prc = \<lparr>level_price = prc, orders = [], total_quantity = 0\<rparr>"

text \<open>
  \<open>PriceLevel::add_order\<close>: \<open>push_back\<close>, then \<open>total_quantity += order->quantity\<close>,
  which wraps around.
\<close>

definition level_add_order :: "Order list \<Rightarrow> PriceLevel \<Rightarrow> addr \<Rightarrow> PriceLevel" where
  "level_add_order h l a =
     l\<lparr>orders := orders l @ [a],
       total_quantity := int32 (total_quantity l + quantity (h ! a))\<rparr>"

text \<open>
  The scan of \<open>PriceLevel::remove_order\<close>: the first queue entry whose object has the id,
  and the queue without that entry.
\<close>

fun find_erase :: "Order list \<Rightarrow> int \<Rightarrow> addr list \<Rightarrow> (addr \<times> addr list) option" where
  "find_erase h i [] = None"
| "find_erase h i (a # as) =
     (if order_id (h ! a) = i then Some (a, as)
      else (case find_erase h i as of
              None \<Rightarrow> None
            | Some (x, r) \<Rightarrow> Some (x, a # r)))"

text \<open>
  \<open>PriceLevel::remove_order\<close>: \<open>None\<close> is
  \<open>throw std::runtime_error("Order not found in PriceLevel")\<close>.
\<close>

definition level_remove_order :: "Order list \<Rightarrow> PriceLevel \<Rightarrow> int \<Rightarrow> PriceLevel option" where
  "level_remove_order h l i =
     (case find_erase h i (orders l) of
        None \<Rightarrow> None
      | Some (a, r) \<Rightarrow>
          Some (l\<lparr>orders := r, total_quantity := total_quantity l - quantity (h ! a)\<rparr>))"

subsection \<open>\<open>OrderBook::add_order\<close>\<close>

text \<open>
  \<open>current_order_id++\<close> wraps around. \<open>order_id_map.emplace\<close> leaves an existing key
  alone. The level is looked up with \<open>find\<close>; a new level is entered in the price map and
  in the price set.
\<close>

definition add_order :: "bool \<Rightarrow> int \<Rightarrow> rat \<Rightarrow> int \<Rightarrow> OrderBook \<Rightarrow> int outcome" where
  "add_order buy qty prc cli b =
     (if qty \<le> 0 \<or> prc \<le> 0 then Threw InvalidArgument b
      else
        let n = int32 (current_order_id b + 1);
            a = length (heap b);
            order = \<lparr>order_id = n, is_buy = buy, quantity = qty, price = prc, client_id = cli\<rparr>;
            b1 = b\<lparr>current_order_id := n,
                   heap := heap b @ [order],
                   order_id_map := (if order_id_map b n = None then (order_id_map b)(n \<mapsto> a)
                                    else order_id_map b)\<rparr>
        in if buy then
             (case bid_price_map b1 prc of
                Some l \<Rightarrow>
                  Returned n (b1\<lparr>bid_price_map :=
                                  (bid_price_map b1)(prc \<mapsto> level_add_order (heap b1) l a)\<rparr>)
              | None \<Rightarrow>
                  Returned n (b1\<lparr>bid_price_map :=
                                  (bid_price_map b1)(prc \<mapsto> level_add_order (heap b1) (new_level prc) a),
                                bid_prices := insert prc (bid_prices b1)\<rparr>))
           else
             (case ask_price_map b1 prc of
                Some l \<Rightarrow>
                  Returned n (b1\<lparr>ask_price_map :=
                                  (ask_price_map b1)(prc \<mapsto> level_add_order (heap b1) l a)\<rparr>)
              | None \<Rightarrow>
                  Returned n (b1\<lparr>ask_price_map :=
                                  (ask_price_map b1)(prc \<mapsto> level_add_order (heap b1) (new_level prc) a),
                                ask_prices := insert prc (ask_prices b1)\<rparr>)))"

subsection \<open>\<open>OrderBook::cancel_order\<close>\<close>

text \<open>
  \<open>bid_price_map[order->price]\<close> enters a null pointer for a price that has no level, and
  \<open>level->remove_order\<close> then dereferences it: \<open>Undefined\<close>. The exception of
  \<open>remove_order\<close> leaves the book as it was. The level is erased when its
  \<open>total_quantity\<close> is 0 after the removal.
\<close>

definition cancel_order :: "int \<Rightarrow> OrderBook \<Rightarrow> unit outcome" where
  "cancel_order i b =
     (case order_id_map b i of
        None \<Rightarrow> Threw OrderNotFound b
      | Some a \<Rightarrow>
          let order = heap b ! a in
          if is_buy order then
            (case bid_price_map b (price order) of
               None \<Rightarrow> Undefined
             | Some l \<Rightarrow>
                 (case level_remove_order (heap b) l i of
                    None \<Rightarrow> Threw OrderNotFoundInLevel b
                  | Some l' \<Rightarrow>
                      let b1 = (if total_quantity l' = 0
                                then b\<lparr>bid_price_map := (bid_price_map b)(price order := None),
                                       bid_prices := bid_prices b - {price order}\<rparr>
                                else b\<lparr>bid_price_map := (bid_price_map b)(price order \<mapsto> l')\<rparr>)
                      in Returned () (b1\<lparr>order_id_map := (order_id_map b1)(i := None)\<rparr>)))
          else
            (case ask_price_map b (price order) of
               None \<Rightarrow> Undefined
             | Some l \<Rightarrow>
                 (case level_remove_order (heap b) l i of
                    None \<Rightarrow> Threw OrderNotFoundInLevel b
                  | Some l' \<Rightarrow>
                      let b1 = (if total_quantity l' = 0
                                then b\<lparr>ask_price_map := (ask_price_map b)(price order := None),
                                       ask_prices := ask_prices b - {price order}\<rparr>
                                else b\<lparr>ask_price_map := (ask_price_map b)(price order \<mapsto> l')\<rparr>)
                      in Returned () (b1\<lparr>order_id_map := (order_id_map b1)(i := None)\<rparr>))))"

subsection \<open>\<open>OrderBook::execute_trades\<close>\<close>

definition get_best_bid :: "OrderBook \<Rightarrow> rat" where
  "get_best_bid b = (if bid_prices b = {} then -1 else Max (bid_prices b))"

definition get_best_ask :: "OrderBook \<Rightarrow> rat" where
  "get_best_ask b = (if ask_prices b = {} then -1 else Min (ask_prices b))"

text \<open>
  A trade message: the four values streamed after the word \<open>TRADE\<close>, in the order of the
  source: \<open>bid_order->id\<close>, \<open>ask_order->id\<close>, \<open>trade_qty\<close>, \<open>best_ask\<close>. The decimal
  rendering of the \<open>double\<close> is not modelled.
\<close>

datatype TradeMsg = TRADE (buy_id: int) (sell_id: int) (trade_quantity: int) (trade_price: rat)

text \<open>
  \<open>bid_order\<close> and \<open>ask_order\<close> are references (\<open>auto&\<close>) to element 0 of the level's
  vector, not copies of the pointer stored there. After
  \<open>orders.erase(orders.begin())\<close> the elements behind have moved down by one, and the
  reference reads what element 0 holds then: the next order of the queue, or, when the queue
  became empty, the storage of the erased element, which still holds the old pointer.
  \<open>slot0 old q\<close> is the address read through the reference after the erase, for the
  erased front \<open>old\<close> and the remaining queue \<open>q\<close>.
\<close>

definition slot0 :: "addr \<Rightarrow> addr list \<Rightarrow> addr" where
  "slot0 old q = (case q of [] \<Rightarrow> old | a # _ \<Rightarrow> a)"

text \<open>
  The part of the loop body from \<open>auto& bid_order = ...\<close> to its end, for the two levels
  found at the best prices, both with a non-empty queue.
\<close>

definition trade :: "OrderBook \<Rightarrow> rat \<Rightarrow> rat \<Rightarrow> PriceLevel \<Rightarrow> PriceLevel \<Rightarrow> TradeMsg \<times> OrderBook" where
  "trade b best_bid best_ask bid_level ask_level =
     (let h = heap b;
          bid_order = hd (orders bid_level);
          ask_order = hd (orders ask_level);
          trade_qty = min (quantity (h ! bid_order)) (quantity (h ! ask_order));
          msg = TRADE (order_id (h ! bid_order)) (order_id (h ! ask_order)) trade_qty best_ask;
          h1 = h[bid_order := (h ! bid_order)\<lparr>quantity := quantity (h ! bid_order) - trade_qty\<rparr>];
          h2 = h1[ask_order := (h1 ! ask_order)\<lparr>quantity := quantity (h1 ! ask_order) - trade_qty\<rparr>];
          bid_total = total_quantity bid_level - trade_qty;
          ask_total = total_quantity ask_level - trade_qty;
          bid_gone = (quantity (h2 ! bid_order) = 0);
          bid_queue = (if bid_gone then tl (orders bid_level) else orders bid_level);
          ids1 = (if bid_gone
                  then (order_id_map b)(order_id (h2 ! slot0 bid_order bid_queue) := None)
                  else order_id_map b);
          ask_gone = (quantity (h2 ! ask_order) = 0);
          ask_queue = (if ask_gone then tl (orders ask_level) else orders ask_level);
          ids2 = (if ask_gone
                  then ids1(order_id (h2 ! slot0 ask_order ask_queue) := None)
                  else ids1);
          b1 = b\<lparr>heap := h2, order_id_map := ids2\<rparr>;
          b2 = (if bid_queue = []
                then b1\<lparr>bid_price_map := (bid_price_map b1)(best_bid := None),
                        bid_prices := bid_prices b1 - {best_bid}\<rparr>
                else b1\<lparr>bid_price_map := (bid_price_map b1)(best_bid \<mapsto>
                          bid_level\<lparr>orders := bid_queue, total_quantity := bid_total\<rparr>)\<rparr>);
          b3 = (if ask_queue = []
                then b2\<lparr>ask_price_map := (ask_price_map b2)(best_ask := None),
                        ask_prices := ask_prices b2 - {best_ask}\<rparr>
                else b2\<lparr>ask_price_map := (ask_price_map b2)(best_ask \<mapsto>
                          ask_level\<lparr>orders := ask_queue, total_quantity := ask_total\<rparr>)\<rparr>)
      in (msg, b3))"

text \<open>
  One pass through the body of \<open>while (true)\<close>: the loop is left (\<open>break\<close>), an empty
  level is cleaned up (\<open>continue\<close>), a trade is made, or a best price has no level in its
  price map, where \<open>operator[]\<close> yields a null pointer that is dereferenced at once.
\<close>

datatype iteration = Break | Cleaned OrderBook | Traded TradeMsg OrderBook | Crash

definition loop_body :: "OrderBook \<Rightarrow> iteration" where
  "loop_body b =
     (let best_bid = get_best_bid b; best_ask = get_best_ask b in
      if best_bid = -1 \<or> best_ask = -1 \<or> best_bid < best_ask then Break
      else
        (case bid_price_map b best_bid of
           None \<Rightarrow> Crash
         | Some bid_level \<Rightarrow>
            (case ask_price_map b best_ask of
               None \<Rightarrow> Crash
             | Some ask_level \<Rightarrow>
                 if orders bid_level = [] \<or> orders ask_level = [] then
                   (let b1 = (if orders bid_level = []
                              then b\<lparr>bid_price_map := (bid_price_map b)(best_bid := None),
                                     bid_prices := bid_prices b - {best_bid}\<rparr>
                              else b);
                        b2 = (if orders ask_level = []
                              then b1\<lparr>ask_price_map := (ask_price_map b1)(best_ask := None),
                                      ask_prices := ask_prices b1 - {best_ask}\<rparr>
                              else b1)
                    in Cleaned b2)
                 else (case trade b best_bid best_ask bid_level ask_level of
                         (msg, b') \<Rightarrow> Traded msg b'))))"

text \<open>
  The loop. It is a partial function: \<open>None\<close> stands for a loop that never ends, and that
  the loop does end on every book that satisfies the invariant is proved below.
\<close>

partial_function (option) trade_loop :: "OrderBook \<Rightarrow> TradeMsg list \<Rightarrow> TradeMsg list outcome option" where
  "trade_loop b trade_messages =
     (case loop_body b of
        Break \<Rightarrow> Some (Returned trade_messages b)
      | Cleaned b' \<Rightarrow> trade_loop b' trade_messages
      | Traded msg b' \<Rightarrow> trade_loop b' (trade_messages @ [msg])
      | Crash \<Rightarrow> Some Undefined)"

definition execute_trades :: "OrderBook \<Rightarrow> TradeMsg list outcome option" where
  "execute_trades b = trade_loop b []"

subsection \<open>\<open>OrderBook::get_order_book_string\<close>\<close>

text \<open>
  The decimal text that \<open>operator<<\<close> writes for an \<open>int\<close>.
\<close>

fun string_of_nat :: "nat \<Rightarrow> string" where
  "string_of_nat n =
     (if n < 10 then [''0123456789'' ! n]
      else string_of_nat (n div 10) @ [''0123456789'' ! (n mod 10)])"

declare string_of_nat.simps [simp del]

definition string_of_int :: "int \<Rightarrow> string" where
  "string_of_int i = (if i < 0 then CHR ''-'' # string_of_nat (nat (- i)) else string_of_nat (nat i))"

text \<open>
  The conversion of a \<open>double\<close> to \<open>int\<close>, done when \<open>std::vector<int>\<close> is filled
  from the set of \<open>double\<close> prices: the fraction is dropped (rounding towards zero), and a
  value outside the range of \<open>int\<close> is undefined behaviour (\<open>None\<close>).
\<close>

definition double_to_int :: "rat \<Rightarrow> int option" where
  "double_to_int r =
     (let t = (if 0 \<le> r then \<lfloor>r\<rfloor> else \<lceil>r\<rceil>)
      in if INT_MIN \<le> t \<and> t \<le> INT_MAX then Some t else None)"

fun to_ints :: "rat list \<Rightarrow> int list option" where
  "to_ints [] = Some []"
| "to_ints (r # rs) =
     (case double_to_int r of
        None \<Rightarrow> None
      | Some i \<Rightarrow> (case to_ints rs of None \<Rightarrow> None | Some js \<Rightarrow> Some (i # js)))"

text \<open>
  One \<open>for\<close> loop of the snapshot: for every \<open>int\<close> price, \<open>price_map.at(price)\<close>
  (the \<open>int\<close> converted back to \<open>double\<close>) and one line of text. \<open>None\<close> is the
  \<open>std::out_of_range\<close> that \<open>at\<close> throws for a missing key.
\<close>

fun level_lines :: "(rat \<rightharpoonup> PriceLevel) \<Rightarrow> int list \<Rightarrow> string option" where
  "level_lines m [] = Some []"
| "level_lines m (p # ps) =
     (case m (of_int p) of
        None \<Rightarrow> None
      | Some level \<Rightarrow>
          (case level_lines m ps of
             None \<Rightarrow> None
           | Some s \<Rightarrow>
               Some (''  '' @ string_of_int p @ '' : '' @ string_of_int (total_quantity level)
                     @ [CHR 0x0A] @ s)))"

text \<open>
  The order in which an \<open>unordered_set\<close> is traversed is unspecified; the vector is sorted
  before it is used, so any enumeration of the set gives the same text, and
  \<open>sorted_list_of_set\<close> is taken. \<open>std::sort\<close> over the reverse iterators sorts
  descending.
\<close>

definition get_order_book_string :: "OrderBook \<Rightarrow> string outcome" where
  "get_order_book_string b =
     (case to_ints (sorted_list_of_set (bid_prices b)) of
        None \<Rightarrow> Undefined
      | Some bid_prices_sorted \<Rightarrow>
          (case level_lines (bid_price_map b) (rev (sort bid_prices_sorted)) of
             None \<Rightarrow> Threw OutOfRange b
           | Some bid_text \<Rightarrow>
               (case to_ints (sorted_list_of_set (ask_prices b)) of
                  None \<Rightarrow> Undefined
                | Some ask_prices_sorted \<Rightarrow>
                    (case level_lines (ask_price_map b) (sort ask_prices_sorted) of
                       None \<Rightarrow> Threw OutOfRange b
                     | Some ask_text \<Rightarrow>
                         Returned (''BIDS:'' @ [CHR 0x0A] @ bid_text @
                                   ''ASKS:'' @ [CHR 0x0A] @ ask_text) b))))"

section \<open>Invariants and notions of the specification\<close>

subsection \<open>The book invariant\<close>

text \<open>
  The sum of the remaining quantities of a queue, read through the heap.
\<close>

definition queue_total :: "Order list \<Rightarrow> addr list \<Rightarrow> int" where
  "queue_total h q = sum_list (map (\<lambda>a. quantity (h ! a)) q)"

text \<open>
  A level at price \<open>p\<close> on one side of a book with heap \<open>h\<close> and id counter \<open>n\<close>: its
  queue is not empty and holds every object once; every queued object is allocated, is on
  that side and at that price, has a remaining quantity of at least 1 and an id that the
  counter has passed; and \<open>total_quantity\<close> is the sum of the remaining quantities.
\<close>

definition level_ok :: "Order list \<Rightarrow> int \<Rightarrow> bool \<Rightarrow> rat \<Rightarrow> PriceLevel \<Rightarrow> bool" where
  "level_ok h n side p l \<longleftrightarrow>
     level_price l = p \<and> 0 < p \<and> orders l \<noteq> [] \<and> distinct (orders l) \<and>
     (\<forall>a \<in> set (orders l). a < length h \<and> is_buy (h ! a) = side \<and> price (h ! a) = p \<and>
        1 \<le> quantity (h ! a) \<and> order_id (h ! a) \<le> n) \<and>
     total_quantity l = queue_total h (orders l)"

definition side_ok :: "Order list \<Rightarrow> int \<Rightarrow> bool \<Rightarrow> (rat \<rightharpoonup> PriceLevel) \<Rightarrow> bool" where
  "side_ok h n side m \<longleftrightarrow> (\<forall>p l. m p = Some l \<longrightarrow> level_ok h n side p l)"

definition index_ok :: "Order list \<Rightarrow> int \<Rightarrow> (int \<rightharpoonup> addr) \<Rightarrow> bool" where
  "index_ok h n ids \<longleftrightarrow> (\<forall>k a. ids k = Some a \<longrightarrow> k \<le> n \<and> a < length h)"

text \<open>
  The invariant of the book. It holds for the empty book, \<open>cancel_order\<close> and
  \<open>execute_trades\<close> keep it, and \<open>add_order\<close> keeps it when neither of its two additions
  wraps around (proved below). It does not say that \<open>order_id_map\<close> and the queues hold the
  same orders: \<open>execute_trades\<close> does not keep that.
\<close>

definition book_inv :: "OrderBook \<Rightarrow> bool" where
  "book_inv b \<longleftrightarrow>
     finite (bid_prices b) \<and> finite (ask_prices b) \<and>
     bid_prices b = dom (bid_price_map b) \<and> ask_prices b = dom (ask_price_map b) \<and>
     side_ok (heap b) (current_order_id b) True (bid_price_map b) \<and>
     side_ok (heap b) (current_order_id b) False (ask_price_map b) \<and>
     0 \<le> current_order_id b \<and>
     index_ok (heap b) (current_order_id b) (order_id_map b)"

text \<open>
  The part of the book invariant that is about the levels, for a bound \<open>n\<close> on the ids of
  the queued orders, and the same with some bound. The second does not mention
  \<open>current_order_id\<close> or \<open>order_id_map\<close>.
\<close>

definition sides_inv :: "int \<Rightarrow> OrderBook \<Rightarrow> bool" where
  "sides_inv n b \<longleftrightarrow>
     finite (bid_prices b) \<and> finite (ask_prices b) \<and>
     bid_prices b = dom (bid_price_map b) \<and> ask_prices b = dom (ask_price_map b) \<and>
     side_ok (heap b) n True (bid_price_map b) \<and>
     side_ok (heap b) n False (ask_price_map b)"

definition levels_inv :: "OrderBook \<Rightarrow> bool" where
  "levels_inv b \<longleftrightarrow> (\<exists>n. sides_inv n b)"

text \<open>
  The state invariant of the specification: in every level of the book \<open>total_quantity\<close> is
  the sum of the remaining quantities of its queue, and no level has a total of zero or an
  empty queue.
\<close>

definition joint_inv :: "OrderBook \<Rightarrow> bool" where
  "joint_inv b \<longleftrightarrow>
     (\<forall>p l. bid_price_map b p = Some l \<or> ask_price_map b p = Some l \<longrightarrow>
        total_quantity l = queue_total (heap b) (orders l) \<and>
        total_quantity l \<noteq> 0 \<and> orders l \<noteq> [])"

text \<open>
  \<open>total_fits buy qty prc b\<close>: the addition \<open>total_quantity += order->quantity\<close> of an
  \<open>add_order(buy, qty, prc, _)\<close> on \<open>b\<close> does not pass \<open>INT_MAX\<close>: the total of the
  level at that price on that side (0 when the level is new) plus the quantity is at most
  \<open>INT_MAX\<close>.
\<close>

definition level_total :: "(rat \<rightharpoonup> PriceLevel) \<Rightarrow> rat \<Rightarrow> int" where
  "level_total m p = (case m p of None \<Rightarrow> 0 | Some l \<Rightarrow> total_quantity l)"

definition total_fits :: "bool \<Rightarrow> int \<Rightarrow> rat \<Rightarrow> OrderBook \<Rightarrow> bool" where
  "total_fits buy qty prc b \<longleftrightarrow>
     level_total (if buy then bid_price_map b else ask_price_map b) prc + qty \<le> INT_MAX"

text \<open>No crossing: a side is empty, or the best bid is strictly below the best ask.\<close>

definition no_cross :: "OrderBook \<Rightarrow> bool" where
  "no_cross b \<longleftrightarrow> bid_prices b = {} \<or> ask_prices b = {} \<or> Max (bid_prices b) < Min (ask_prices b)"

subsection \<open>Runs of the book and of the matching loop\<close>

text \<open>
  \<open>public_op b b'\<close>: one call of a public method on \<open>b\<close> that comes back to its caller,
  by returning or by throwing, leaves the book \<open>b'\<close>.
\<close>

inductive public_op :: "OrderBook \<Rightarrow> OrderBook \<Rightarrow> bool" where
  add_returned: "add_order buy qty prc cli b = Returned i b' \<Longrightarrow> public_op b b'"
| add_threw: "add_order buy qty prc cli b = Threw e b' \<Longrightarrow> public_op b b'"
| cancel_returned: "cancel_order i b = Returned u b' \<Longrightarrow> public_op b b'"
| cancel_threw: "cancel_order i b = Threw e b' \<Longrightarrow> public_op b b'"
| match_returned: "execute_trades b = Some (Returned msgs b') \<Longrightarrow> public_op b b'"

text \<open>
  \<open>early_op b b'\<close>: such a call, made while \<open>current_order_id\<close> is below \<open>INT_MAX\<close>.
  \<open>returned r\<close>: the value that the outcome \<open>r\<close> returns, if it returns.
\<close>

definition early_op :: "OrderBook \<Rightarrow> OrderBook \<Rightarrow> bool" where
  "early_op b b' \<longleftrightarrow> public_op b b' \<and> current_order_id b < INT_MAX"

definition returned :: "'a outcome \<Rightarrow> 'a option" where
  "returned r = (case r of Returned x _ \<Rightarrow> Some x | _ \<Rightarrow> None)"

text \<open>
  \<open>loop_step b b'\<close>: one pass through the body of the matching loop leads from \<open>b\<close> to
  \<open>b'\<close>. \<open>loop_reaches b s\<close>: a call of \<open>execute_trades\<close> on \<open>b\<close> is at the top of its
  loop with the book \<open>s\<close> at some instant.
\<close>

definition loop_step :: "OrderBook \<Rightarrow> OrderBook \<Rightarrow> bool" where
  "loop_step b b' =
     (case loop_body b of Cleaned x \<Rightarrow> x = b' | Traded msg x \<Rightarrow> x = b' | _ \<Rightarrow> False)"

definition loop_reaches :: "OrderBook \<Rightarrow> OrderBook \<Rightarrow> bool" where
  "loop_reaches = loop_step\<^sup>*\<^sup>*"

text \<open>
  \<open>emitted_from b m\<close>: a call of \<open>execute_trades\<close> on \<open>b\<close> makes the trade \<open>m\<close> in
  some pass of its loop.
\<close>

definition emitted_from :: "OrderBook \<Rightarrow> TradeMsg \<Rightarrow> bool" where
  "emitted_from b m \<longleftrightarrow> (\<exists>s s'. loop_reaches b s \<and> loop_body s = Traded m s')"

text \<open>
  \<open>resting s side i\<close>: in the book \<open>s\<close>, an order of that side with id \<open>i\<close> and a
  remaining quantity of at least 1 is in the queue of a level of that side.
\<close>

definition resting :: "OrderBook \<Rightarrow> bool \<Rightarrow> int \<Rightarrow> bool" where
  "resting s side i \<longleftrightarrow>
     (\<exists>p l a. (if side then bid_price_map s else ask_price_map s) p = Some l \<and>
        a \<in> set (orders l) \<and> order_id (heap s ! a) = i \<and>
        is_buy (heap s ! a) = side \<and> 1 \<le> quantity (heap s ! a))"

subsection \<open>Auxiliary notions of the proofs\<close>

text \<open>The total remaining quantity of all objects: the measure of the matching loop.\<close>

definition remaining :: "OrderBook \<Rightarrow> nat" where
  "remaining b = sum_list (map (\<lambda>ord. nat (quantity ord)) (heap b))"

text \<open>The heap after the two assignments to \<open>quantity\<close> of a fill.\<close>

definition fill_heap :: "Order list \<Rightarrow> addr \<Rightarrow> addr \<Rightarrow> Order list" where
  "fill_heap h ab aa =
     (let t = min (quantity (h ! ab)) (quantity (h ! aa));
          h1 = h[ab := (h ! ab)\<lparr>quantity := quantity (h ! ab) - t\<rparr>]
      in h1[aa := (h1 ! aa)\<lparr>quantity := quantity (h1 ! aa) - t\<rparr>])"

subsection \<open>Books of the scenarios\<close>

text \<open>
  The book after \<open>add(sell, 10, 99)\<close> and \<open>add(buy, 10, 100)\<close> on the empty book
  (lemma \<open>ask99_bid100_adds\<close>).
\<close>

definition ask99_bid100 :: OrderBook where
  "ask99_bid100 =
     \<lparr>heap = [\<lparr>order_id = 1, is_buy = False, quantity = 10, price = 99, client_id = 1\<rparr>,
              \<lparr>order_id = 2, is_buy = True, quantity = 10, price = 100, client_id = 1\<rparr>],
      bid_prices = {100}, ask_prices = {99},
      bid_price_map = [100 \<mapsto> \<lparr>level_price = 100, orders = [1], total_quantity = 10\<rparr>],
      ask_price_map = [99 \<mapsto> \<lparr>level_price = 99, orders = [0], total_quantity = 10\<rparr>],
      order_id_map = [1 \<mapsto> 0, 2 \<mapsto> 1],
      current_order_id = 2\<rparr>"

text \<open>
  The book after \<open>add(buy, 2147483647, 100)\<close> on the empty book, and the book after
  \<open>add(buy, 1, 100)\<close> on that one (lemma \<open>big_bid_adds\<close>).
\<close>

definition big_bid :: OrderBook where
  "big_bid =
     \<lparr>heap = [\<lparr>order_id = 1, is_buy = True, quantity = 2147483647, price = 100, client_id = 1\<rparr>],
      bid_prices = {100}, ask_prices = {},
      bid_price_map = [100 \<mapsto> \<lparr>level_price = 100, orders = [0], total_quantity = 2147483647\<rparr>],
      ask_price_map = Map.empty,
      order_id_map = [1 \<mapsto> 0],
      current_order_id = 1\<rparr>"

definition big_bid_wrapped :: OrderBook where
  "big_bid_wrapped =
     \<lparr>heap = [\<lparr>order_id = 1, is_buy = True, quantity = 2147483647, price = 100, client_id = 1\<rparr>,
              \<lparr>order_id = 2, is_buy = True, quantity = 1, price = 100, client_id = 1\<rparr>],
      bid_prices = {100}, ask_prices = {},
      bid_price_map = [100 \<mapsto> \<lparr>level_price = 100, orders = [0, 1], total_quantity = - 2147483648\<rparr>],
      ask_price_map = Map.empty,
      order_id_map = [1 \<mapsto> 0, 2 \<mapsto> 1],
      current_order_id = 2\<rparr>"

text \<open>
  The book after \<open>n\<close> rounds of \<open>add(buy, 1, 1)\<close> and \<open>cancel\<close> of the id returned, on
  the empty book (\<open>idle_book n\<close>), and the book between the \<open>add\<close> and the \<open>cancel\<close> of
  the next round (\<open>busy_book n\<close>); lemmas \<open>idle_book_add\<close> and \<open>busy_book_cancel\<close>. The
  heap of the model keeps the cancelled objects.
\<close>

definition spent :: "nat \<Rightarrow> Order list" where
  "spent n = map (\<lambda>k. \<lparr>order_id = int k + 1, is_buy = True, quantity = 1, price = 1, client_id = 0\<rparr>) [0..<n]"

definition idle_book :: "nat \<Rightarrow> OrderBook" where
  "idle_book n =
     \<lparr>heap = spent n, bid_prices = {}, ask_prices = {},
      bid_price_map = Map.empty, ask_price_map = Map.empty,
      order_id_map = Map.empty, current_order_id = int n\<rparr>"

definition busy_book :: "nat \<Rightarrow> OrderBook" where
  "busy_book n =
     \<lparr>heap = spent (Suc n), bid_prices = {1}, ask_prices = {},
      bid_price_map = [1 \<mapsto> \<lparr>level_price = 1, orders = [n], total_quantity = 1\<rparr>],
      ask_price_map = Map.empty,
      order_id_map = [int n + 1 \<mapsto> n], current_order_id = int n + 1\<rparr>"

section \<open>Properties\<close>

subsection \<open>The invariant is kept\<close>

lemma book_inv_empty: "book_inv empty_book"
  by (simp add: book_inv_def empty_book_def side_ok_def index_ok_def)

lemma queue_total_Nil [simp]: "queue_total h [] = 0"
  by (simp add: queue_total_def)

lemma queue_total_Cons [simp]: "queue_total h (a # q) = quantity (h ! a) + queue_total h q"
  by (simp add: queue_total_def)

lemma queue_total_append [simp]: "queue_total h (q @ r) = queue_total h q + queue_total h r"
  by (simp add: queue_total_def)

lemma queue_total_cong:
  "\<forall>a \<in> set q. h' ! a = h ! a \<Longrightarrow> queue_total h' q = queue_total h q"
  by (induction q) simp_all

lemma level_ok_same:
  assumes "level_ok h n s p l" "n \<le> n'" "length h \<le> length h'"
    "\<forall>a \<in> set (orders l). h' ! a = h ! a"
  shows "level_ok h' n' s p l"
  using assms queue_total_cong [OF assms(4)] unfolding level_ok_def by auto

lemma level_ok_append:
  "level_ok h n s p l \<Longrightarrow> n \<le> n' \<Longrightarrow> level_ok (h @ [ord]) n' s p l"
  by (rule level_ok_same) (auto simp: level_ok_def nth_append)

lemma int32_id: "INT_MIN \<le> x \<Longrightarrow> x \<le> INT_MAX \<Longrightarrow> int32 x = x"
  by (simp add: int32_def INT_MIN_def INT_MAX_def)

lemma int32_range: "INT_MIN \<le> int32 x \<and> int32 x \<le> INT_MAX"
proof -
  have "0 \<le> (x + 2147483648) mod 4294967296" "(x + 2147483648) mod 4294967296 < 4294967296"
    by simp_all
  then show ?thesis by (simp add: int32_def INT_MIN_def INT_MAX_def)
qed

lemma queue_total_pos:
  "\<forall>a \<in> set q. 1 \<le> quantity (h ! a) \<Longrightarrow> q \<noteq> [] \<Longrightarrow> 1 \<le> queue_total h q"
proof (induction q)
  case Nil
  then show ?case by simp
next
  case (Cons a q)
  then show ?case by (cases q) auto
qed

lemma level_ok_total_pos: "level_ok h n s p l \<Longrightarrow> 1 \<le> total_quantity l"
  by (simp add: level_ok_def queue_total_pos)

lemma level_ok_new:
  assumes "0 < p" "1 \<le> quantity ord" "is_buy ord = s" "price ord = p" "order_id ord \<le> n"
    "level_add_order (h @ [ord]) (new_level p) (length h) = l'" "quantity ord \<le> INT_MAX"
  shows "level_ok (h @ [ord]) n s p l'"
proof -
  have "int32 (quantity ord) = quantity ord"
    using assms(2,7) by (intro int32_id) (simp_all add: INT_MIN_def)
  with assms show ?thesis
    by (auto simp: level_ok_def level_add_order_def new_level_def)
qed

lemma level_ok_add:
  assumes "level_ok h n0 s p l" "n0 \<le> n" "1 \<le> quantity ord" "is_buy ord = s" "price ord = p" "order_id ord \<le> n"
    "level_add_order (h @ [ord]) l (length h) = l'" "total_quantity l + quantity ord \<le> INT_MAX"
  shows "level_ok (h @ [ord]) n s p l'"
proof -
  have "1 \<le> total_quantity l" using assms(1) by (rule level_ok_total_pos)
  then have "int32 (total_quantity l + quantity ord) = total_quantity l + quantity ord"
    using assms(3,8) by (intro int32_id) (simp_all add: INT_MIN_def)
  then have l': "l' = l\<lparr>orders := orders l @ [length h], total_quantity := total_quantity l + quantity ord\<rparr>"
    using assms(7) by (auto simp: level_add_order_def)
  have ok: "level_ok (h @ [ord]) n s p l"
    using assms(1,2) by (rule level_ok_append)
  have fresh: "length h \<notin> set (orders l)"
    using assms(1) by (auto simp: level_ok_def)
  show ?thesis
    using ok fresh assms(3-6) unfolding level_ok_def l' by auto
qed

lemma side_ok_append: "side_ok h n s m \<Longrightarrow> n \<le> n' \<Longrightarrow> side_ok (h @ [ord]) n' s m"
  unfolding side_ok_def by (blast intro: level_ok_append)

lemma side_ok_upd: "side_ok h n s m \<Longrightarrow> level_ok h n s p l \<Longrightarrow> side_ok h n s (m(p \<mapsto> l))"
  unfolding side_ok_def by simp

lemma side_ok_del: "side_ok h n s m \<Longrightarrow> side_ok h n s (m(p := None))"
  unfolding side_ok_def by simp

lemma index_ok_append:
  "index_ok h n ids \<Longrightarrow> index_ok (h @ [ord]) (n + 1) (if ids (n + 1) = None then ids(n + 1 \<mapsto> length h) else ids)"
  unfolding index_ok_def by (auto split: if_splits) force+

lemma index_ok_del: "index_ok h n ids \<Longrightarrow> index_ok h n (ids(k := None))"
  unfolding index_ok_def by simp

lemma add_order_Returned:
  assumes "add_order buy qty prc cli b = Returned i b'"
  shows "0 < qty \<and> 0 < prc \<and> i = int32 (current_order_id b + 1) \<and> current_order_id b' = i \<and>
         heap b' = heap b @ [\<lparr>order_id = i, is_buy = buy, quantity = qty, price = prc, client_id = cli\<rparr>] \<and>
         order_id_map b' = (if order_id_map b i = None then (order_id_map b)(i \<mapsto> length (heap b)) else order_id_map b) \<and>
         (\<exists>l'. level_add_order (heap b') (case (if buy then bid_price_map b else ask_price_map b) prc of None \<Rightarrow> new_level prc | Some l \<Rightarrow> l) (length (heap b)) = l' \<and>
           (if buy then bid_price_map b' = (bid_price_map b)(prc \<mapsto> l') \<and> bid_prices b' = (if bid_price_map b prc = None then insert prc (bid_prices b) else bid_prices b) \<and> ask_price_map b' = ask_price_map b \<and> ask_prices b' = ask_prices b
            else ask_price_map b' = (ask_price_map b)(prc \<mapsto> l') \<and> ask_prices b' = (if ask_price_map b prc = None then insert prc (ask_prices b) else ask_prices b) \<and> bid_price_map b' = bid_price_map b \<and> bid_prices b' = bid_prices b))"
  using assms unfolding add_order_def Let_def
  by (auto split: if_splits option.splits)

lemma book_inv_sides:
  "book_inv b \<longleftrightarrow>
     sides_inv (current_order_id b) b \<and> 0 \<le> current_order_id b \<and>
     index_ok (heap b) (current_order_id b) (order_id_map b)"
  unfolding book_inv_def sides_inv_def by blast

lemma book_inv_levels: "book_inv b \<Longrightarrow> levels_inv b"
  unfolding levels_inv_def book_inv_sides by blast

lemma add_order_sides:
  assumes inv: "sides_inv n b" and add: "add_order buy qty prc cli b = Returned i b'"
    and fits: "total_fits buy qty prc b" and n': "n \<le> n'" "i \<le> n'"
  shows "sides_inv n' b'"
proof -
  note R = add_order_Returned [OF add]
  let ?ord = "\<lparr>order_id = i, is_buy = buy, quantity = qty, price = prc, client_id = cli\<rparr>"
  let ?m = "if buy then bid_price_map b else ask_price_map b"
  have hp: "heap b' = heap b @ [?ord]"
    using R by simp
  from R obtain l' where
    l': "level_add_order (heap b') (case ?m prc of None \<Rightarrow> new_level prc | Some l \<Rightarrow> l) (length (heap b)) = l'"
    and maps: "if buy then bid_price_map b' = (bid_price_map b)(prc \<mapsto> l') \<and> bid_prices b' = (if bid_price_map b prc = None then insert prc (bid_prices b) else bid_prices b) \<and> ask_price_map b' = ask_price_map b \<and> ask_prices b' = ask_prices b
            else ask_price_map b' = (ask_price_map b)(prc \<mapsto> l') \<and> ask_prices b' = (if ask_price_map b prc = None then insert prc (ask_prices b) else ask_prices b) \<and> bid_price_map b' = bid_price_map b \<and> bid_prices b' = bid_prices b"
    by blast
  have sb: "side_ok (heap b') n' True (bid_price_map b)" and sa: "side_ok (heap b') n' False (ask_price_map b)"
    using inv n'(1) unfolding sides_inv_def hp by (auto intro: side_ok_append)
  have qp: "1 \<le> qty" "0 < prc"
    using R by simp_all
  have lok: "level_ok (heap b') n' buy prc l'"
  proof (cases "?m prc")
    case None
    then have "level_add_order (heap b @ [?ord]) (new_level prc) (length (heap b)) = l'"
      using l' by (simp add: hp)
    moreover have "qty \<le> INT_MAX"
      using fits None by (simp add: total_fits_def level_total_def)
    ultimately have "level_ok (heap b @ [?ord]) n' buy prc l'"
      using qp n'(2) by (intro level_ok_new) simp_all
    then show ?thesis by (simp add: hp)
  next
    case (Some l)
    have old: "level_ok (heap b) n buy prc l"
      using inv Some unfolding sides_inv_def side_ok_def by (auto split: if_splits)
    have "level_add_order (heap b @ [?ord]) l (length (heap b)) = l'"
      using l' Some by (simp add: hp)
    moreover have "total_quantity l + qty \<le> INT_MAX"
      using fits Some by (simp add: total_fits_def level_total_def)
    ultimately have "level_ok (heap b @ [?ord]) n' buy prc l'"
      using qp n' by (intro level_ok_add [OF old]) simp_all
    then show ?thesis by (simp add: hp)
  qed
  show ?thesis
  proof (cases buy)
    case True
    then show ?thesis
      using inv maps sb sa lok side_ok_upd [OF sb, of prc l'] unfolding sides_inv_def
      by (auto split: if_splits)
  next
    case False
    then show ?thesis
      using inv maps sb sa lok side_ok_upd [OF sa, of prc l'] unfolding sides_inv_def
      by (auto split: if_splits)
  qed
qed

lemma add_order_inv:
  assumes inv: "book_inv b" and add: "add_order buy qty prc cli b = Returned i b'"
    and below: "current_order_id b < INT_MAX" and fits: "total_fits buy qty prc b"
  shows "book_inv b'"
proof -
  note R = add_order_Returned [OF add]
  let ?ord = "\<lparr>order_id = i, is_buy = buy, quantity = qty, price = prc, client_id = cli\<rparr>"
  have cur0: "0 \<le> current_order_id b" and si: "sides_inv (current_order_id b) b"
    and ix0: "index_ok (heap b) (current_order_id b) (order_id_map b)"
    using inv by (simp_all add: book_inv_sides)
  have "int32 (current_order_id b + 1) = current_order_id b + 1"
    using cur0 below by (intro int32_id) (simp_all add: INT_MIN_def)
  then have i: "i = current_order_id b + 1" using R by simp
  have hp: "heap b' = heap b @ [?ord]" and cur: "current_order_id b' = i"
    using R by simp_all
  have s': "sides_inv i b'"
    using si add fits by (rule add_order_sides) (simp_all add: i)
  have idm: "order_id_map b' = (if order_id_map b i = None then (order_id_map b)(i \<mapsto> length (heap b)) else order_id_map b)"
    using R by simp
  from index_ok_append [OF ix0, of ?ord]
  have ix: "index_ok (heap b') i (order_id_map b')"
    unfolding idm hp i .
  show ?thesis
    unfolding book_inv_sides cur using s' ix cur0 i by simp
qed

lemma find_erase_Some:
  "find_erase h i q = Some (a, r) \<Longrightarrow>
     \<exists>q1 q2. q = q1 @ a # q2 \<and> r = q1 @ q2 \<and> order_id (h ! a) = i \<and> (\<forall>x \<in> set q1. order_id (h ! x) \<noteq> i)"
proof (induction q arbitrary: r)
  case Nil
  then show ?case by simp
next
  case (Cons x q)
  show ?case
  proof (cases "order_id (h ! x) = i")
    case True
    with Cons.prems have "a = x" "r = q" by simp_all
    with True show ?thesis by (intro exI [of _ "[]"] exI [of _ q]) simp
  next
    case False
    with Cons.prems obtain r' where fe: "find_erase h i q = Some (a, r')" and r: "r = x # r'"
      by (auto split: option.splits)
    from Cons.IH [OF fe] obtain q1 q2 where
      "q = q1 @ a # q2" "r' = q1 @ q2" "order_id (h ! a) = i" "\<forall>y \<in> set q1. order_id (h ! y) \<noteq> i"
      by blast
    with False r show ?thesis
      by (intro exI [of _ "x # q1"] exI [of _ q2]) simp
  qed
qed


lemma level_remove_ok:
  assumes ok: "level_ok h n s p l" and rm: "level_remove_order h l i = Some l'"
  shows "(total_quantity l' = 0 \<longleftrightarrow> orders l' = []) \<and> (orders l' \<noteq> [] \<longrightarrow> level_ok h n s p l')"
proof -
  from rm obtain a r where fe: "find_erase h i (orders l) = Some (a, r)"
    and l': "l' = l\<lparr>orders := r, total_quantity := total_quantity l - quantity (h ! a)\<rparr>"
    by (auto simp: level_remove_order_def split: option.splits)
  from find_erase_Some [OF fe] obtain q1 q2 where q: "orders l = q1 @ a # q2" and r: "r = q1 @ q2"
    by blast
  have tot: "total_quantity l' = queue_total h r"
    using ok by (simp add: l' level_ok_def q r)
  have pos: "\<forall>x \<in> set r. 1 \<le> quantity (h ! x)"
    using ok by (auto simp: level_ok_def q r)
  have "r \<noteq> [] \<Longrightarrow> 1 \<le> queue_total h r"
    using pos by (rule queue_total_pos)
  then have z: "total_quantity l' = 0 \<longleftrightarrow> r = []"
    unfolding tot by (cases "r = []") auto
  have "r \<noteq> [] \<Longrightarrow> level_ok h n s p l'"
    using ok tot unfolding level_ok_def by (auto simp: l' q r)
  with z show ?thesis by (simp add: l')
qed

lemma cancel_order_Returned:
  assumes c: "cancel_order i b = Returned u b'"
  obtains (found) a l l' where "order_id_map b i = Some a"
    "(if is_buy (heap b ! a) then bid_price_map b else ask_price_map b) (price (heap b ! a)) = Some l"
    "level_remove_order (heap b) l i = Some l'"
    "is_buy (heap b ! a) \<Longrightarrow>
       b' = (if total_quantity l' = 0
             then b\<lparr>bid_price_map := (bid_price_map b)(price (heap b ! a) := None),
                    bid_prices := bid_prices b - {price (heap b ! a)},
                    order_id_map := (order_id_map b)(i := None)\<rparr>
             else b\<lparr>bid_price_map := (bid_price_map b)(price (heap b ! a) \<mapsto> l'),
                    order_id_map := (order_id_map b)(i := None)\<rparr>)"
    "\<not> is_buy (heap b ! a) \<Longrightarrow>
       b' = (if total_quantity l' = 0
             then b\<lparr>ask_price_map := (ask_price_map b)(price (heap b ! a) := None),
                    ask_prices := ask_prices b - {price (heap b ! a)},
                    order_id_map := (order_id_map b)(i := None)\<rparr>
             else b\<lparr>ask_price_map := (ask_price_map b)(price (heap b ! a) \<mapsto> l'),
                    order_id_map := (order_id_map b)(i := None)\<rparr>)"
proof -
  from c obtain a where a: "order_id_map b i = Some a"
    by (auto simp: cancel_order_def split: option.splits)
  let ?m = "if is_buy (heap b ! a) then bid_price_map b else ask_price_map b"
  from c a obtain l where l: "?m (price (heap b ! a)) = Some l"
    by (auto simp: cancel_order_def Let_def split: option.splits if_splits)
  from c a l obtain l' where l': "level_remove_order (heap b) l i = Some l'"
    by (auto simp: cancel_order_def Let_def split: option.splits if_splits)
  show thesis
  proof (rule that [OF a l l'])
    assume "is_buy (heap b ! a)"
    with c a l l' show "b' = (if total_quantity l' = 0
             then b\<lparr>bid_price_map := (bid_price_map b)(price (heap b ! a) := None),
                    bid_prices := bid_prices b - {price (heap b ! a)},
                    order_id_map := (order_id_map b)(i := None)\<rparr>
             else b\<lparr>bid_price_map := (bid_price_map b)(price (heap b ! a) \<mapsto> l'),
                    order_id_map := (order_id_map b)(i := None)\<rparr>)"
      by (auto simp: cancel_order_def Let_def split: if_splits)
  next
    assume "\<not> is_buy (heap b ! a)"
    with c a l l' show "b' = (if total_quantity l' = 0
             then b\<lparr>ask_price_map := (ask_price_map b)(price (heap b ! a) := None),
                    ask_prices := ask_prices b - {price (heap b ! a)},
                    order_id_map := (order_id_map b)(i := None)\<rparr>
             else b\<lparr>ask_price_map := (ask_price_map b)(price (heap b ! a) \<mapsto> l'),
                    order_id_map := (order_id_map b)(i := None)\<rparr>)"
      by (auto simp: cancel_order_def Let_def split: if_splits)
  qed
qed

lemma cancel_order_OrderNotFound_iff:
  "(\<exists>b'. cancel_order i b = Threw OrderNotFound b') \<longleftrightarrow> order_id_map b i = None"
  unfolding cancel_order_def Let_def
  by (auto split: if_splits option.splits)

lemma cancel_order_Threw:
  "cancel_order i b = Threw e b' \<Longrightarrow> b' = b"
  unfolding cancel_order_def Let_def
  by (auto split: if_splits option.splits)

lemma cancel_order_sides:
  assumes inv: "sides_inv n b" and c: "cancel_order i b = Returned u b'"
  shows "sides_inv n b'"
  using c
proof (cases rule: cancel_order_Returned)
  case (found a l l')
  let ?p = "price (heap b ! a)"
  let ?s = "is_buy (heap b ! a)"
  have lok: "level_ok (heap b) n ?s ?p l"
    using inv found(2) unfolding sides_inv_def side_ok_def by (auto split: if_splits)
  note rm = level_remove_ok [OF lok found(3)]
  show ?thesis
  proof (cases ?s)
    case True
    have sd: "side_ok (heap b) n True ((bid_price_map b)(?p := None))"
      using inv by (simp add: sides_inv_def side_ok_del)
    have su: "total_quantity l' \<noteq> 0 \<Longrightarrow> side_ok (heap b) n True ((bid_price_map b)(?p \<mapsto> l'))"
      using inv rm True by (simp add: sides_inv_def side_ok_upd)
    have dm: "?p \<in> dom (bid_price_map b)" using found(2) True by auto
    show ?thesis
      using inv sd su dm unfolding found(4) [OF True] sides_inv_def by auto
  next
    case False
    have sd: "side_ok (heap b) n False ((ask_price_map b)(?p := None))"
      using inv by (simp add: sides_inv_def side_ok_del)
    have su: "total_quantity l' \<noteq> 0 \<Longrightarrow> side_ok (heap b) n False ((ask_price_map b)(?p \<mapsto> l'))"
      using inv rm False by (simp add: sides_inv_def side_ok_upd)
    have dm: "?p \<in> dom (ask_price_map b)" using found(2) False by auto
    show ?thesis
      using inv sd su dm unfolding found(5) [OF False] sides_inv_def by auto
  qed
qed

lemma cancel_order_inv:
  assumes inv: "book_inv b" and c: "cancel_order i b = Returned u b'"
  shows "book_inv b'"
  using c
proof (cases rule: cancel_order_Returned)
  case (found a l l')
  let ?p = "price (heap b ! a)"
  let ?s = "is_buy (heap b ! a)"
  have lok: "level_ok (heap b) (current_order_id b) ?s ?p l"
    using inv found(2) unfolding book_inv_def side_ok_def by (auto split: if_splits)
  note rm = level_remove_ok [OF lok found(3)]
  have ix: "index_ok (heap b) (current_order_id b) ((order_id_map b)(i := None))"
    using inv by (simp add: book_inv_def index_ok_del)
  show ?thesis
  proof (cases ?s)
    case True
    have sd: "side_ok (heap b) (current_order_id b) True ((bid_price_map b)(?p := None))"
      using inv by (simp add: book_inv_def side_ok_del)
    have su: "total_quantity l' \<noteq> 0 \<Longrightarrow> side_ok (heap b) (current_order_id b) True ((bid_price_map b)(?p \<mapsto> l'))"
      using inv rm True by (simp add: book_inv_def side_ok_upd)
    have dm: "?p \<in> dom (bid_price_map b)" using found(2) True by auto
    show ?thesis
      using inv ix sd su dm unfolding found(4) [OF True] book_inv_def by auto
  next
    case False
    have sd: "side_ok (heap b) (current_order_id b) False ((ask_price_map b)(?p := None))"
      using inv by (simp add: book_inv_def side_ok_del)
    have su: "total_quantity l' \<noteq> 0 \<Longrightarrow> side_ok (heap b) (current_order_id b) False ((ask_price_map b)(?p \<mapsto> l'))"
      using inv rm False by (simp add: book_inv_def side_ok_upd)
    have dm: "?p \<in> dom (ask_price_map b)" using found(2) False by auto
    show ?thesis
      using inv ix sd su dm unfolding found(5) [OF False] book_inv_def by auto
  qed
qed

lemma level_ok_front_fill:
  assumes ok: "level_ok h n s p l" and q: "orders l = a # q"
    and len: "length h' = length h"
    and ha: "h' ! a = (h ! a)\<lparr>quantity := quantity (h ! a) - t\<rparr>"
    and rest: "\<forall>x \<in> set q. h' ! x = h ! x"
    and t: "t \<le> quantity (h ! a)"
    and q': "q' = (if quantity (h' ! a) = 0 then q else a # q)" "q' \<noteq> []"
  shows "level_ok h' n s p (l\<lparr>orders := q', total_quantity := total_quantity l - t\<rparr>)"
proof -
  have tq: "queue_total h' q = queue_total h q"
    using rest by (rule queue_total_cong)
  have tot: "total_quantity l = quantity (h ! a) + queue_total h q"
    using ok by (simp add: level_ok_def q)
  have okq: "\<forall>x \<in> set q. x < length h' \<and> is_buy (h' ! x) = s \<and> price (h' ! x) = p \<and>
        1 \<le> quantity (h' ! x) \<and> order_id (h' ! x) \<le> n"
    using ok rest by (simp add: level_ok_def q len)
  have oka: "a < length h' \<and> is_buy (h' ! a) = s \<and> price (h' ! a) = p \<and> order_id (h' ! a) \<le> n"
    using ok by (simp add: level_ok_def q len ha)
  have base: "level_price l = p" "0 < p" "distinct (a # q)"
    using ok by (simp_all add: level_ok_def q)
  show ?thesis
  proof (cases "quantity (h' ! a) = 0")
    case True
    then have "quantity (h ! a) = t" by (simp add: ha)
    with True okq base tq tot q' show ?thesis
      by (simp add: level_ok_def)
  next
    case False
    then have "1 \<le> quantity (h' ! a)" using t by (simp add: ha)
    with False okq oka base tq tot q' show ?thesis
      by (simp add: level_ok_def ha)
  qed
qed

lemma side_ok_trade:
  assumes so: "side_ok h n s m" and mp: "m p = Some l" and q: "orders l = a # q"
    and len: "length h' = length h"
    and ha: "h' ! a = (h ! a)\<lparr>quantity := quantity (h ! a) - t\<rparr>"
    and oth: "\<forall>x. x \<noteq> a \<longrightarrow> x \<noteq> c \<longrightarrow> h' ! x = h ! x"
    and c: "is_buy (h ! c) \<noteq> s"
    and t: "t \<le> quantity (h ! a)"
  shows "side_ok h' n s (m(p := None))"
    and "(if quantity (h' ! a) = 0 then q else a # q) \<noteq> [] \<Longrightarrow>
         side_ok h' n s (m(p \<mapsto> l\<lparr>orders := (if quantity (h' ! a) = 0 then q else a # q),
                                   total_quantity := total_quantity l - t\<rparr>))"
proof -
  have lok: "level_ok h n s p l" using so mp by (simp add: side_ok_def)
  have others: "level_ok h' n s p' l'" if "m p' = Some l'" "p' \<noteq> p" for p' l'
  proof -
    have ok': "level_ok h n s p' l'" using so that by (simp add: side_ok_def)
    have "a \<in> set (orders l)" by (simp add: q)
    then have "price (h ! a) = p" using lok by (simp add: level_ok_def)
    then have na: "a \<notin> set (orders l')" using ok' that(2) by (auto simp: level_ok_def)
    have nc: "c \<notin> set (orders l')" using ok' c by (auto simp: level_ok_def)
    have "\<forall>x \<in> set (orders l'). h' ! x = h ! x"
      using na nc oth by auto
    with ok' show ?thesis
      by (intro level_ok_same [OF ok']) (simp_all add: len)
  qed
  show "side_ok h' n s (m(p := None))"
    using others by (auto simp: side_ok_def)
  assume ne: "(if quantity (h' ! a) = 0 then q else a # q) \<noteq> []"
  have "a \<notin> set q" using lok by (simp add: level_ok_def q)
  moreover have "c \<notin> set q" using lok c by (auto simp: level_ok_def q)
  ultimately have rest: "\<forall>x \<in> set q. h' ! x = h ! x" using oth by auto
  have "level_ok h' n s p (l\<lparr>orders := (if quantity (h' ! a) = 0 then q else a # q),
                                   total_quantity := total_quantity l - t\<rparr>)"
    using lok q len ha rest t _ ne by (rule level_ok_front_fill) simp
  then show "side_ok h' n s (m(p \<mapsto> l\<lparr>orders := (if quantity (h' ! a) = 0 then q else a # q),
                                   total_quantity := total_quantity l - t\<rparr>))"
    using others by (auto simp: side_ok_def)
qed

lemma sum_list_update_less:
  fixes f :: "'a \<Rightarrow> nat"
  shows "i < length xs \<Longrightarrow> f v < f (xs ! i) \<Longrightarrow> sum_list (map f (xs[i := v])) < sum_list (map f xs)"
proof (induction xs arbitrary: i)
  case Nil
  then show ?case by simp
next
  case (Cons x xs)
  then show ?case by (cases i) auto
qed

lemma fill_heap_length [simp]: "length (fill_heap h ab aa) = length h"
  by (simp add: fill_heap_def Let_def)

lemma fill_heap_other: "x \<noteq> ab \<Longrightarrow> x \<noteq> aa \<Longrightarrow> fill_heap h ab aa ! x = h ! x"
  by (simp add: fill_heap_def Let_def)

lemma fill_heap_bid:
  "ab \<noteq> aa \<Longrightarrow> ab < length h \<Longrightarrow>
     fill_heap h ab aa ! ab = (h ! ab)\<lparr>quantity := quantity (h ! ab) - min (quantity (h ! ab)) (quantity (h ! aa))\<rparr>"
  by (simp add: fill_heap_def Let_def)

lemma fill_heap_ask:
  "ab \<noteq> aa \<Longrightarrow> aa < length h \<Longrightarrow>
     fill_heap h ab aa ! aa = (h ! aa)\<lparr>quantity := quantity (h ! aa) - min (quantity (h ! ab)) (quantity (h ! aa))\<rparr>"
  by (simp add: fill_heap_def Let_def)

lemma fill_heap_remaining:
  assumes "ab \<noteq> aa" "ab < length h" "aa < length h" "1 \<le> quantity (h ! ab)" "1 \<le> quantity (h ! aa)"
  shows "sum_list (map (\<lambda>ord. nat (quantity ord)) (fill_heap h ab aa))
         < sum_list (map (\<lambda>ord. nat (quantity ord)) h)"
proof -
  let ?f = "\<lambda>ord. nat (quantity ord)"
  let ?t = "min (quantity (h ! ab)) (quantity (h ! aa))"
  let ?h1 = "h[ab := (h ! ab)\<lparr>quantity := quantity (h ! ab) - ?t\<rparr>]"
  have 1: "sum_list (map ?f ?h1) < sum_list (map ?f h)"
    using assms by (intro sum_list_update_less) auto
  have "sum_list (map ?f (?h1[aa := (?h1 ! aa)\<lparr>quantity := quantity (?h1 ! aa) - ?t\<rparr>])) < sum_list (map ?f ?h1)"
    using assms by (intro sum_list_update_less) auto
  with 1 show ?thesis by (simp add: fill_heap_def Let_def)
qed

lemma trade_fields:
  assumes "trade b bb ba bl al = (msg, b')"
  shows "msg = TRADE (order_id (heap b ! hd (orders bl))) (order_id (heap b ! hd (orders al)))
                 (min (quantity (heap b ! hd (orders bl))) (quantity (heap b ! hd (orders al)))) ba"
    and "heap b' = fill_heap (heap b) (hd (orders bl)) (hd (orders al))"
    and "current_order_id b' = current_order_id b"
    and "order_id_map b' k = Some a \<Longrightarrow> order_id_map b k = Some a"
    and "bid_price_map b' =
          (if (if quantity (heap b' ! hd (orders bl)) = 0 then tl (orders bl) else orders bl) = []
           then (bid_price_map b)(bb := None)
           else (bid_price_map b)(bb \<mapsto> bl\<lparr>orders := (if quantity (heap b' ! hd (orders bl)) = 0 then tl (orders bl) else orders bl),
                    total_quantity := total_quantity bl - min (quantity (heap b ! hd (orders bl))) (quantity (heap b ! hd (orders al)))\<rparr>))"
    and "bid_prices b' =
          (if (if quantity (heap b' ! hd (orders bl)) = 0 then tl (orders bl) else orders bl) = []
           then bid_prices b - {bb} else bid_prices b)"
    and "ask_price_map b' =
          (if (if quantity (heap b' ! hd (orders al)) = 0 then tl (orders al) else orders al) = []
           then (ask_price_map b)(ba := None)
           else (ask_price_map b)(ba \<mapsto> al\<lparr>orders := (if quantity (heap b' ! hd (orders al)) = 0 then tl (orders al) else orders al),
                    total_quantity := total_quantity al - min (quantity (heap b ! hd (orders bl))) (quantity (heap b ! hd (orders al)))\<rparr>))"
    and "ask_prices b' =
          (if (if quantity (heap b' ! hd (orders al)) = 0 then tl (orders al) else orders al) = []
           then ask_prices b - {ba} else ask_prices b)"
proof -
  define h where "h = heap b"
  define bid_order where "bid_order = hd (orders bl)"
  define ask_order where "ask_order = hd (orders al)"
  define trade_qty where "trade_qty = min (quantity (h ! bid_order)) (quantity (h ! ask_order))"
  define h1 where "h1 = h[bid_order := (h ! bid_order)\<lparr>quantity := quantity (h ! bid_order) - trade_qty\<rparr>]"
  define h2 where "h2 = h1[ask_order := (h1 ! ask_order)\<lparr>quantity := quantity (h1 ! ask_order) - trade_qty\<rparr>]"
  define bid_queue where "bid_queue = (if quantity (h2 ! bid_order) = 0 then tl (orders bl) else orders bl)"
  define ids1 where "ids1 = (if quantity (h2 ! bid_order) = 0
                  then (order_id_map b)(order_id (h2 ! slot0 bid_order bid_queue) := None)
                  else order_id_map b)"
  define ask_queue where "ask_queue = (if quantity (h2 ! ask_order) = 0 then tl (orders al) else orders al)"
  define ids2 where "ids2 = (if quantity (h2 ! ask_order) = 0
                  then ids1(order_id (h2 ! slot0 ask_order ask_queue) := None)
                  else ids1)"
  define b1 where "b1 = b\<lparr>heap := h2, order_id_map := ids2\<rparr>"
  define b2 where "b2 = (if bid_queue = []
                then b1\<lparr>bid_price_map := (bid_price_map b1)(bb := None),
                        bid_prices := bid_prices b1 - {bb}\<rparr>
                else b1\<lparr>bid_price_map := (bid_price_map b1)(bb \<mapsto>
                          bl\<lparr>orders := bid_queue, total_quantity := total_quantity bl - trade_qty\<rparr>)\<rparr>)"
  define b3 where "b3 = (if ask_queue = []
                then b2\<lparr>ask_price_map := (ask_price_map b2)(ba := None),
                        ask_prices := ask_prices b2 - {ba}\<rparr>
                else b2\<lparr>ask_price_map := (ask_price_map b2)(ba \<mapsto>
                          al\<lparr>orders := ask_queue, total_quantity := total_quantity al - trade_qty\<rparr>)\<rparr>)"
  have "trade b bb ba bl al =
          (TRADE (order_id (h ! bid_order)) (order_id (h ! ask_order)) trade_qty ba, b3)"
    unfolding trade_def Let_def b3_def b2_def b1_def ids2_def ask_queue_def ids1_def bid_queue_def
      h2_def h1_def trade_qty_def ask_order_def bid_order_def h_def
    by (rule refl)
  with assms have msg: "msg = TRADE (order_id (h ! bid_order)) (order_id (h ! ask_order)) trade_qty ba"
    and b': "b' = b3" by simp_all
  have h2: "h2 = fill_heap (heap b) (hd (orders bl)) (hd (orders al))"
    by (simp add: fill_heap_def Let_def h2_def h1_def trade_qty_def h_def bid_order_def ask_order_def)
  have hb2: "heap b2 = h2" by (simp add: b2_def b1_def)
  have hb3: "heap b3 = h2" by (simp add: b3_def hb2)
  show "msg = TRADE (order_id (heap b ! hd (orders bl))) (order_id (heap b ! hd (orders al)))
                 (min (quantity (heap b ! hd (orders bl))) (quantity (heap b ! hd (orders al)))) ba"
    by (simp add: msg trade_qty_def h_def bid_order_def ask_order_def)
  show hp: "heap b' = fill_heap (heap b) (hd (orders bl)) (hd (orders al))"
    by (simp add: b' hb3 h2)
  have "current_order_id b2 = current_order_id b" by (simp add: b2_def b1_def)
  then show "current_order_id b' = current_order_id b"
    by (simp add: b' b3_def)
  have "order_id_map b2 = ids2" by (simp add: b2_def b1_def)
  then have ids: "order_id_map b' = ids2" by (simp add: b' b3_def)
  have "ids1 k = Some a \<Longrightarrow> order_id_map b k = Some a"
    by (simp add: ids1_def split: if_splits)
  moreover have "ids2 k = Some a \<Longrightarrow> ids1 k = Some a"
    by (simp add: ids2_def split: if_splits)
  ultimately show "order_id_map b' k = Some a \<Longrightarrow> order_id_map b k = Some a"
    by (simp add: ids)
  have bq: "(if quantity (heap b' ! hd (orders bl)) = 0 then tl (orders bl) else orders bl) = bid_queue"
    by (simp add: b' hb3 bid_queue_def bid_order_def)
  have aq: "(if quantity (heap b' ! hd (orders al)) = 0 then tl (orders al) else orders al) = ask_queue"
    by (simp add: b' hb3 ask_queue_def ask_order_def)
  have tq: "min (quantity (heap b ! hd (orders bl))) (quantity (heap b ! hd (orders al))) = trade_qty"
    by (simp add: trade_qty_def h_def bid_order_def ask_order_def)
  have bm2: "bid_price_map b2 = (if bid_queue = [] then (bid_price_map b)(bb := None)
       else (bid_price_map b)(bb \<mapsto> bl\<lparr>orders := bid_queue, total_quantity := total_quantity bl - trade_qty\<rparr>))"
    by (simp add: b2_def b1_def)
  have bp2: "bid_prices b2 = (if bid_queue = [] then bid_prices b - {bb} else bid_prices b)"
    by (simp add: b2_def b1_def)
  have am2: "ask_price_map b2 = ask_price_map b" "ask_prices b2 = ask_prices b"
    by (simp_all add: b2_def b1_def)
  show "bid_price_map b' =
          (if (if quantity (heap b' ! hd (orders bl)) = 0 then tl (orders bl) else orders bl) = []
           then (bid_price_map b)(bb := None)
           else (bid_price_map b)(bb \<mapsto> bl\<lparr>orders := (if quantity (heap b' ! hd (orders bl)) = 0 then tl (orders bl) else orders bl),
                    total_quantity := total_quantity bl - min (quantity (heap b ! hd (orders bl))) (quantity (heap b ! hd (orders al)))\<rparr>))"
    unfolding bq tq by (simp add: b' b3_def bm2)
  show "bid_prices b' =
          (if (if quantity (heap b' ! hd (orders bl)) = 0 then tl (orders bl) else orders bl) = []
           then bid_prices b - {bb} else bid_prices b)"
    unfolding bq by (simp add: b' b3_def bp2)
  show "ask_price_map b' =
          (if (if quantity (heap b' ! hd (orders al)) = 0 then tl (orders al) else orders al) = []
           then (ask_price_map b)(ba := None)
           else (ask_price_map b)(ba \<mapsto> al\<lparr>orders := (if quantity (heap b' ! hd (orders al)) = 0 then tl (orders al) else orders al),
                    total_quantity := total_quantity al - min (quantity (heap b ! hd (orders bl))) (quantity (heap b ! hd (orders al)))\<rparr>))"
    unfolding aq tq by (simp add: b' b3_def am2)
  show "ask_prices b' =
          (if (if quantity (heap b' ! hd (orders al)) = 0 then tl (orders al) else orders al) = []
           then ask_prices b - {ba} else ask_prices b)"
    unfolding aq by (simp add: b' b3_def am2)
qed

lemma trade_sides:
  assumes inv: "sides_inv n b" and bl: "bid_price_map b bb = Some bl" and al: "ask_price_map b ba = Some al"
    and tr: "trade b bb ba bl al = (msg, b')"
  shows "sides_inv n b'" and "remaining b' < remaining b" and "1 \<le> trade_quantity msg"
proof -
  let ?h = "heap b" and ?n = n
  have sob: "side_ok ?h ?n True (bid_price_map b)" and soa: "side_ok ?h ?n False (ask_price_map b)"
    using inv by (simp_all add: sides_inv_def)
  have lokb: "level_ok ?h ?n True bb bl" using sob bl by (simp add: side_ok_def)
  have loka: "level_ok ?h ?n False ba al" using soa al by (simp add: side_ok_def)
  obtain ab qb where qb: "orders bl = ab # qb"
    using lokb by (cases "orders bl") (auto simp: level_ok_def)
  obtain aa qa where qa: "orders al = aa # qa"
    using loka by (cases "orders al") (auto simp: level_ok_def)
  have fb: "ab < length ?h" "is_buy (?h ! ab)" "1 \<le> quantity (?h ! ab)"
    using lokb by (simp_all add: level_ok_def qb)
  have fa: "aa < length ?h" "\<not> is_buy (?h ! aa)" "1 \<le> quantity (?h ! aa)"
    using loka by (simp_all add: level_ok_def qa)
  have ne: "ab \<noteq> aa" using fb(2) fa(2) by auto
  let ?t = "min (quantity (?h ! ab)) (quantity (?h ! aa))"
  let ?h' = "fill_heap ?h ab aa"
  note F = trade_fields [OF tr, unfolded qb qa list.sel]
  have hp: "heap b' = ?h'" by (rule F(2))
  show "1 \<le> trade_quantity msg"
    using fb(3) fa(3) by (simp add: F(1))
  show "remaining b' < remaining b"
    unfolding remaining_def hp using ne fb(1) fa(1) fb(3) fa(3) by (rule fill_heap_remaining)
  have hb: "?h' ! ab = (?h ! ab)\<lparr>quantity := quantity (?h ! ab) - ?t\<rparr>"
    using ne fb(1) by (rule fill_heap_bid)
  have ha: "?h' ! aa = (?h ! aa)\<lparr>quantity := quantity (?h ! aa) - ?t\<rparr>"
    using ne fa(1) by (rule fill_heap_ask)
  have oth: "\<forall>x. x \<noteq> ab \<longrightarrow> x \<noteq> aa \<longrightarrow> ?h' ! x = ?h ! x"
    by (simp add: fill_heap_other)
  have oth': "\<forall>x. x \<noteq> aa \<longrightarrow> x \<noteq> ab \<longrightarrow> ?h' ! x = ?h ! x"
    by (simp add: fill_heap_other)
  have sb1: "side_ok ?h' ?n True ((bid_price_map b)(bb := None))"
    using sob bl qb _ hb oth by (rule side_ok_trade) (use fa(2) in simp_all)
  have sb2: "(if quantity (?h' ! ab) = 0 then qb else ab # qb) \<noteq> [] \<Longrightarrow>
         side_ok ?h' ?n True ((bid_price_map b)(bb \<mapsto> bl\<lparr>orders := (if quantity (?h' ! ab) = 0 then qb else ab # qb),
                                   total_quantity := total_quantity bl - ?t\<rparr>))"
    using sob bl qb _ hb oth by (rule side_ok_trade) (use fa(2) in simp_all)
  have sa1: "side_ok ?h' ?n False ((ask_price_map b)(ba := None))"
    using soa al qa _ ha oth' by (rule side_ok_trade) (use fb(2) in simp_all)
  have sa2: "(if quantity (?h' ! aa) = 0 then qa else aa # qa) \<noteq> [] \<Longrightarrow>
         side_ok ?h' ?n False ((ask_price_map b)(ba \<mapsto> al\<lparr>orders := (if quantity (?h' ! aa) = 0 then qa else aa # qa),
                                   total_quantity := total_quantity al - ?t\<rparr>))"
    using soa al qa _ ha oth' by (rule side_ok_trade) (use fb(2) in simp_all)
  have sob': "side_ok (heap b') n True (bid_price_map b')"
    unfolding F(5) hp using sb1 sb2 by (simp add: hp)
  have soa': "side_ok (heap b') n False (ask_price_map b')"
    unfolding F(7) hp using sa1 sa2 by (simp add: hp)
  have db: "bid_prices b' = dom (bid_price_map b')"
    unfolding F(5) F(6) using inv bl by (auto simp: sides_inv_def)
  have da: "ask_prices b' = dom (ask_price_map b')"
    unfolding F(7) F(8) using inv al by (auto simp: sides_inv_def)
  have fin0: "finite (bid_prices b)" "finite (ask_prices b)"
    using inv unfolding sides_inv_def by blast+
  have fin: "finite (bid_prices b')" "finite (ask_prices b')"
    unfolding F(6) F(8) using fin0 by simp_all
  show "sides_inv n b'"
    unfolding sides_inv_def using sob' soa' db da fin by simp
qed

lemma trade_inv:
  assumes inv: "book_inv b" and bl: "bid_price_map b bb = Some bl" and al: "ask_price_map b ba = Some al"
    and tr: "trade b bb ba bl al = (msg, b')"
  shows "book_inv b'" and "remaining b' < remaining b" and "1 \<le> trade_quantity msg"
proof -
  let ?h = "heap b" and ?n = "current_order_id b"
  have sob: "side_ok ?h ?n True (bid_price_map b)" and soa: "side_ok ?h ?n False (ask_price_map b)"
    using inv by (simp_all add: book_inv_def)
  have lokb: "level_ok ?h ?n True bb bl" using sob bl by (simp add: side_ok_def)
  have loka: "level_ok ?h ?n False ba al" using soa al by (simp add: side_ok_def)
  obtain ab qb where qb: "orders bl = ab # qb"
    using lokb by (cases "orders bl") (auto simp: level_ok_def)
  obtain aa qa where qa: "orders al = aa # qa"
    using loka by (cases "orders al") (auto simp: level_ok_def)
  have fb: "ab < length ?h" "is_buy (?h ! ab)" "1 \<le> quantity (?h ! ab)"
    using lokb by (simp_all add: level_ok_def qb)
  have fa: "aa < length ?h" "\<not> is_buy (?h ! aa)" "1 \<le> quantity (?h ! aa)"
    using loka by (simp_all add: level_ok_def qa)
  have ne: "ab \<noteq> aa" using fb(2) fa(2) by auto
  let ?t = "min (quantity (?h ! ab)) (quantity (?h ! aa))"
  let ?h' = "fill_heap ?h ab aa"
  note F = trade_fields [OF tr, unfolded qb qa list.sel]
  have hp: "heap b' = ?h'" by (rule F(2))
  show "1 \<le> trade_quantity msg"
    using fb(3) fa(3) by (simp add: F(1))
  show "remaining b' < remaining b"
    unfolding remaining_def hp using ne fb(1) fa(1) fb(3) fa(3) by (rule fill_heap_remaining)
  have hb: "?h' ! ab = (?h ! ab)\<lparr>quantity := quantity (?h ! ab) - ?t\<rparr>"
    using ne fb(1) by (rule fill_heap_bid)
  have ha: "?h' ! aa = (?h ! aa)\<lparr>quantity := quantity (?h ! aa) - ?t\<rparr>"
    using ne fa(1) by (rule fill_heap_ask)
  have oth: "\<forall>x. x \<noteq> ab \<longrightarrow> x \<noteq> aa \<longrightarrow> ?h' ! x = ?h ! x"
    by (simp add: fill_heap_other)
  have oth': "\<forall>x. x \<noteq> aa \<longrightarrow> x \<noteq> ab \<longrightarrow> ?h' ! x = ?h ! x"
    by (simp add: fill_heap_other)
  have sb1: "side_ok ?h' ?n True ((bid_price_map b)(bb := None))"
    using sob bl qb _ hb oth by (rule side_ok_trade) (use fa(2) in simp_all)
  have sb2: "(if quantity (?h' ! ab) = 0 then qb else ab # qb) \<noteq> [] \<Longrightarrow>
         side_ok ?h' ?n True ((bid_price_map b)(bb \<mapsto> bl\<lparr>orders := (if quantity (?h' ! ab) = 0 then qb else ab # qb),
                                   total_quantity := total_quantity bl - ?t\<rparr>))"
    using sob bl qb _ hb oth by (rule side_ok_trade) (use fa(2) in simp_all)
  have sa1: "side_ok ?h' ?n False ((ask_price_map b)(ba := None))"
    using soa al qa _ ha oth' by (rule side_ok_trade) (use fb(2) in simp_all)
  have sa2: "(if quantity (?h' ! aa) = 0 then qa else aa # qa) \<noteq> [] \<Longrightarrow>
         side_ok ?h' ?n False ((ask_price_map b)(ba \<mapsto> al\<lparr>orders := (if quantity (?h' ! aa) = 0 then qa else aa # qa),
                                   total_quantity := total_quantity al - ?t\<rparr>))"
    using soa al qa _ ha oth' by (rule side_ok_trade) (use fb(2) in simp_all)
  have sob': "side_ok (heap b') (current_order_id b') True (bid_price_map b')"
    unfolding F(5) F(3) hp using sb1 sb2 by (simp add: hp)
  have soa': "side_ok (heap b') (current_order_id b') False (ask_price_map b')"
    unfolding F(7) F(3) hp using sa1 sa2 by (simp add: hp)
  have db: "bid_prices b' = dom (bid_price_map b')"
    unfolding F(5) F(6) using inv bl by (auto simp: book_inv_def)
  have da: "ask_prices b' = dom (ask_price_map b')"
    unfolding F(7) F(8) using inv al by (auto simp: book_inv_def)
  have fin0: "finite (bid_prices b)" "finite (ask_prices b)" "0 \<le> current_order_id b"
    using inv unfolding book_inv_def by blast+
  have fin: "finite (bid_prices b')" "finite (ask_prices b')"
    unfolding F(6) F(8) using fin0 by simp_all
  have ix: "index_ok (heap b') (current_order_id b') (order_id_map b')"
    using inv F(4) unfolding index_ok_def book_inv_def F(3) hp by (metis fill_heap_length)
  show "book_inv b'"
    unfolding book_inv_def using sob' soa' db da fin ix fin0(3) by (simp add: F(3))
qed

lemma best_bid_level:
  assumes inv: "book_inv b" and ne: "bid_prices b \<noteq> {}"
  obtains bl where "bid_price_map b (get_best_bid b) = Some bl" "orders bl \<noteq> []"
    "0 < get_best_bid b" "get_best_bid b = Max (bid_prices b)"
proof -
  have fin: "finite (bid_prices b)" and dm: "bid_prices b = dom (bid_price_map b)"
    and so: "side_ok (heap b) (current_order_id b) True (bid_price_map b)"
    using inv unfolding book_inv_def by blast+
  have mx: "get_best_bid b = Max (bid_prices b)" using ne by (simp add: get_best_bid_def)
  have "Max (bid_prices b) \<in> bid_prices b" using fin ne by (rule Max_in)
  then obtain bl where bl: "bid_price_map b (get_best_bid b) = Some bl"
    unfolding mx dm by blast
  then have "level_ok (heap b) (current_order_id b) True (get_best_bid b) bl"
    using so by (simp add: side_ok_def)
  then have "orders bl \<noteq> []" "0 < get_best_bid b" by (simp_all add: level_ok_def)
  with bl mx show thesis by (intro that)
qed

lemma best_ask_level:
  assumes inv: "book_inv b" and ne: "ask_prices b \<noteq> {}"
  obtains al where "ask_price_map b (get_best_ask b) = Some al" "orders al \<noteq> []"
    "0 < get_best_ask b" "get_best_ask b = Min (ask_prices b)"
proof -
  have fin: "finite (ask_prices b)" and dm: "ask_prices b = dom (ask_price_map b)"
    and so: "side_ok (heap b) (current_order_id b) False (ask_price_map b)"
    using inv unfolding book_inv_def by blast+
  have mn: "get_best_ask b = Min (ask_prices b)" using ne by (simp add: get_best_ask_def)
  have "Min (ask_prices b) \<in> ask_prices b" using fin ne by (rule Min_in)
  then obtain al where al: "ask_price_map b (get_best_ask b) = Some al"
    unfolding mn dm by blast
  then have "level_ok (heap b) (current_order_id b) False (get_best_ask b) al"
    using so by (simp add: side_ok_def)
  then have "orders al \<noteq> []" "0 < get_best_ask b" by (simp_all add: level_ok_def)
  with al mn show thesis by (intro that)
qed

lemma loop_body_cases:
  assumes inv: "book_inv b"
  obtains (break) "loop_body b = Break" "no_cross b"
  | (traded) msg b' bl al where "loop_body b = Traded msg b'"
       "bid_price_map b (get_best_bid b) = Some bl" "ask_price_map b (get_best_ask b) = Some al"
       "trade b (get_best_bid b) (get_best_ask b) bl al = (msg, b')"
proof (cases "bid_prices b = {} \<or> ask_prices b = {}")
  case True
  then have "loop_body b = Break"
    by (auto simp: loop_body_def get_best_bid_def get_best_ask_def Let_def)
  with True show thesis by (intro break) (auto simp: no_cross_def)
next
  case False
  then have neb: "bid_prices b \<noteq> {}" and nea: "ask_prices b \<noteq> {}" by simp_all
  from inv neb obtain bl where bl: "bid_price_map b (get_best_bid b) = Some bl" "orders bl \<noteq> []"
    "0 < get_best_bid b" "get_best_bid b = Max (bid_prices b)" by (rule best_bid_level)
  from inv nea obtain al where al: "ask_price_map b (get_best_ask b) = Some al" "orders al \<noteq> []"
    "0 < get_best_ask b" "get_best_ask b = Min (ask_prices b)" by (rule best_ask_level)
  show thesis
  proof (cases "get_best_bid b < get_best_ask b")
    case True
    then have "loop_body b = Break" by (simp add: loop_body_def Let_def)
    moreover have "no_cross b" using True by (simp add: no_cross_def bl(4) al(4))
    ultimately show thesis by (rule break)
  next
    case False
    obtain msg b' where tr: "trade b (get_best_bid b) (get_best_ask b) bl al = (msg, b')"
      by (cases "trade b (get_best_bid b) (get_best_ask b) bl al")
    have "loop_body b = Traded msg b'"
      using False bl al tr by (simp add: loop_body_def Let_def)
    then show thesis using bl(1) al(1) tr by (rule traded)
  qed
qed

lemma trade_loop_returns:
  "book_inv b \<Longrightarrow> \<exists>msgs' b'. trade_loop b msgs = Some (Returned msgs' b') \<and> book_inv b' \<and> no_cross b'"
proof (induction "remaining b" arbitrary: b msgs rule: less_induct)
  case less
  from less.prems show ?case
  proof (cases rule: loop_body_cases)
    case break
    then have "trade_loop b msgs = Some (Returned msgs b)"
      by (subst trade_loop.simps) simp
    with less.prems break show ?thesis by blast
  next
    case (traded msg b' bl al)
    have inv': "book_inv b'" and dec: "remaining b' < remaining b"
      using trade_inv [OF less.prems traded(2,3,4)] by blast+
    have "trade_loop b msgs = trade_loop b' (msgs @ [msg])"
      using traded(1) by (subst trade_loop.simps) simp
    with less.hyps [OF dec inv'] show ?thesis by simp
  qed
qed

subsection \<open>The passes of the matching loop\<close>

lemma loop_reaches_refl: "loop_reaches b b"
  by (simp add: loop_reaches_def)

lemma loop_reaches_step: "loop_step b b1 \<Longrightarrow> loop_reaches b1 s \<Longrightarrow> loop_reaches b s"
  unfolding loop_reaches_def by (rule converse_rtranclp_into_rtranclp)

lemma trade_loop_trace:
  assumes "trade_loop b acc = Some r"
  shows "\<forall>msgs b'. r = Returned msgs b' \<longrightarrow>
           loop_reaches b b' \<and> loop_body b' = Break \<and>
           (\<exists>new. msgs = acc @ new \<and> (\<forall>m \<in> set new. emitted_from b m))"
proof (rule trade_loop.raw_induct [where P = "\<lambda>b acc r. \<forall>msgs b'. r = Returned msgs b' \<longrightarrow>
           loop_reaches b b' \<and> loop_body b' = Break \<and>
           (\<exists>new. msgs = acc @ new \<and> (\<forall>m \<in> set new. emitted_from b m))", OF _ assms], goal_cases)
  case (1 f b acc r)
  show ?case
  proof (cases "loop_body b")
    case Break
    with 1(2) have "r = Returned acc b" by simp
    with Break show ?thesis by (simp add: loop_reaches_refl)
  next
    case (Cleaned b1)
    with 1(2) have f: "f b1 acc = Some r" by simp
    have st: "loop_step b b1" using Cleaned by (simp add: loop_step_def)
    show ?thesis
    proof (intro allI impI)
      fix msgs b'
      assume r: "r = Returned msgs b'"
      with 1(1) [OF f] obtain new where
        ih: "loop_reaches b1 b'" "loop_body b' = Break" "msgs = acc @ new" "\<forall>m \<in> set new. emitted_from b1 m"
        by blast
      have "\<forall>m \<in> set new. emitted_from b m"
        using ih(4) st unfolding emitted_from_def by (blast intro: loop_reaches_step)
      with ih st show "loop_reaches b b' \<and> loop_body b' = Break \<and>
           (\<exists>new. msgs = acc @ new \<and> (\<forall>m \<in> set new. emitted_from b m))"
        by (blast intro: loop_reaches_step)
    qed
  next
    case (Traded m0 b1)
    with 1(2) have f: "f b1 (acc @ [m0]) = Some r" by simp
    have st: "loop_step b b1" using Traded by (simp add: loop_step_def)
    have e0: "emitted_from b m0"
      unfolding emitted_from_def using Traded loop_reaches_refl by blast
    show ?thesis
    proof (intro allI impI)
      fix msgs b'
      assume r: "r = Returned msgs b'"
      with 1(1) [OF f] obtain new where
        ih: "loop_reaches b1 b'" "loop_body b' = Break" "msgs = (acc @ [m0]) @ new" "\<forall>m \<in> set new. emitted_from b1 m"
        by blast
      have "\<forall>m \<in> set new. emitted_from b m"
        using ih(4) st unfolding emitted_from_def by (blast intro: loop_reaches_step)
      with e0 have "\<forall>m \<in> set (m0 # new). emitted_from b m" by simp
      moreover have "msgs = acc @ (m0 # new)" using ih(3) by simp
      ultimately show "loop_reaches b b' \<and> loop_body b' = Break \<and>
           (\<exists>new. msgs = acc @ new \<and> (\<forall>m \<in> set new. emitted_from b m))"
        using ih(1,2) st by (blast intro: loop_reaches_step)
    qed
  next
    case Crash
    with 1(2) show ?thesis by simp
  qed
qed

lemma execute_trades_emitted:
  assumes "execute_trades b = Some (Returned msgs b')" "m \<in> set msgs"
  shows "\<exists>s s'. loop_reaches b s \<and> loop_body s = Traded m s'"
  using trade_loop_trace [OF assms(1) [unfolded execute_trades_def]] assms(2)
  unfolding emitted_from_def by auto

lemma loop_body_Traded:
  assumes "loop_body s = Traded m s'"
  obtains bl al where "bid_price_map s (get_best_bid s) = Some bl" "ask_price_map s (get_best_ask s) = Some al"
    "orders bl \<noteq> []" "orders al \<noteq> []"
    "trade s (get_best_bid s) (get_best_ask s) bl al = (m, s')"
  using assms unfolding loop_body_def Let_def
  by (auto split: if_splits option.splits prod.splits)

lemma loop_body_Cleaned:
  assumes "loop_body s = Cleaned s'"
  shows "current_order_id s' = current_order_id s"
  using assms unfolding loop_body_def Let_def
  by (auto split: if_splits option.splits prod.splits)

lemma loop_step_current: "loop_step b b' \<Longrightarrow> current_order_id b' = current_order_id b"
  unfolding loop_step_def
  by (auto split: iteration.splits elim!: loop_body_Traded dest: loop_body_Cleaned trade_fields(3))

lemma loop_reaches_current: "loop_reaches b b' \<Longrightarrow> current_order_id b' = current_order_id b"
  unfolding loop_reaches_def by (induction rule: rtranclp_induct) (auto dest: loop_step_current)

lemma loop_step_inv:
  assumes inv: "book_inv b" and st: "loop_step b b'"
  shows "book_inv b'"
  using inv
proof (cases rule: loop_body_cases)
  case break
  with st show ?thesis by (simp add: loop_step_def)
next
  case (traded msg b1 bl al)
  with st have "b1 = b'" by (simp add: loop_step_def)
  with trade_inv(1) [OF inv traded(2,3,4)] show ?thesis by simp
qed

lemma loop_reaches_inv: "loop_reaches b b' \<Longrightarrow> book_inv b \<Longrightarrow> book_inv b'"
  unfolding loop_reaches_def by (induction rule: rtranclp_induct) (auto dest: loop_step_inv)

lemma loop_body_Cleaned_empty:
  assumes "loop_body s = Cleaned s'"
  shows "\<exists>p l. (bid_price_map s p = Some l \<or> ask_price_map s p = Some l) \<and> orders l = []"
  using assms unfolding loop_body_def Let_def
  by (auto split: if_splits option.splits prod.splits)

lemma loop_step_sides:
  assumes inv: "sides_inv n b" and st: "loop_step b b'"
  shows "sides_inv n b'"
proof (cases "loop_body b")
  case Break
  with st show ?thesis by (simp add: loop_step_def)
next
  case (Cleaned b1)
  from loop_body_Cleaned_empty [OF this] obtain p l where
    "bid_price_map b p = Some l \<or> ask_price_map b p = Some l" "orders l = []" by blast
  with inv have False
    unfolding sides_inv_def side_ok_def level_ok_def by blast
  then show ?thesis ..
next
  case (Traded m b1)
  with st have b1: "b1 = b'" by (simp add: loop_step_def)
  from Traded obtain bl al where
    "bid_price_map b (get_best_bid b) = Some bl" "ask_price_map b (get_best_ask b) = Some al"
    "trade b (get_best_bid b) (get_best_ask b) bl al = (m, b1)"
    by (rule loop_body_Traded)
  with inv have "sides_inv n b1" by (rule trade_sides(1))
  with b1 show ?thesis by simp
next
  case Crash
  with st show ?thesis by (simp add: loop_step_def)
qed

lemma loop_reaches_sides: "loop_reaches b b' \<Longrightarrow> sides_inv n b \<Longrightarrow> sides_inv n b'"
  unfolding loop_reaches_def by (induction rule: rtranclp_induct) (auto dest: loop_step_sides)

lemma execute_trades_sides:
  assumes "sides_inv n b" "execute_trades b = Some (Returned msgs b')"
  shows "sides_inv n b'"
proof -
  have "loop_reaches b b'"
    using trade_loop_trace [OF assms(2) [unfolded execute_trades_def]] by blast
  then show ?thesis using assms(1) by (rule loop_reaches_sides)
qed

subsection \<open>The public methods and the invariants\<close>

lemma sides_joint:
  assumes inv: "sides_inv n b"
  shows "joint_inv b"
proof -
  have ok: "level_ok (heap b) n (bid_price_map b p = Some l) p l"
    if "bid_price_map b p = Some l \<or> ask_price_map b p = Some l" for p l
  proof (cases "bid_price_map b p = Some l")
    case True
    then show ?thesis using inv by (simp add: sides_inv_def side_ok_def)
  next
    case False
    with that have "ask_price_map b p = Some l" by simp
    with False show ?thesis using inv by (simp add: sides_inv_def side_ok_def)
  qed
  have "total_quantity l = queue_total (heap b) (orders l) \<and> total_quantity l \<noteq> 0 \<and> orders l \<noteq> []"
    if "bid_price_map b p = Some l \<or> ask_price_map b p = Some l" for p l
  proof -
    from ok [OF that] have 1: "total_quantity l = queue_total (heap b) (orders l)" "orders l \<noteq> []"
      "\<forall>a \<in> set (orders l). 1 \<le> quantity (heap b ! a)"
      by (simp_all add: level_ok_def)
    from queue_total_pos [OF 1(3) 1(2)] 1 show ?thesis by simp
  qed
  then show ?thesis unfolding joint_inv_def by blast
qed

lemma levels_joint: "levels_inv b \<Longrightarrow> joint_inv b"
  unfolding levels_inv_def by (blast intro: sides_joint)

lemma book_inv_joint: "book_inv b \<Longrightarrow> joint_inv b"
  by (blast intro: levels_joint book_inv_levels)

lemma levels_inv_empty: "levels_inv empty_book"
  by (rule book_inv_levels) (rule book_inv_empty)

lemma add_order_Threw: "add_order buy qty prc cli b = Threw e b' \<Longrightarrow> b' = b"
  unfolding add_order_def Let_def by (auto split: option.splits if_splits)

lemma add_order_levels:
  assumes inv: "levels_inv b" and add: "add_order buy qty prc cli b = Returned i b'"
    and fits: "total_fits buy qty prc b"
  shows "levels_inv b'"
proof -
  from inv obtain n where "sides_inv n b" unfolding levels_inv_def by blast
  then have "sides_inv (max n i) b'"
    using add fits by (rule add_order_sides) simp_all
  then show ?thesis unfolding levels_inv_def by blast
qed

lemma cancel_order_levels:
  "levels_inv b \<Longrightarrow> cancel_order i b = Returned u b' \<Longrightarrow> levels_inv b'"
  unfolding levels_inv_def by (blast intro: cancel_order_sides)

lemma execute_trades_levels:
  "levels_inv b \<Longrightarrow> execute_trades b = Some (Returned msgs b') \<Longrightarrow> levels_inv b'"
  unfolding levels_inv_def by (blast intro: execute_trades_sides)

lemma execute_trades_inv:
  assumes "book_inv b" "execute_trades b = Some (Returned msgs b')"
  shows "book_inv b'"
  using trade_loop_returns [OF assms(1), of "[]"] assms(2) unfolding execute_trades_def by auto

subsection \<open>Adding and cancelling\<close>


subsection \<open>The id counter\<close>

lemma cancel_order_current:
  assumes "cancel_order i b = Returned u b'"
  shows "current_order_id b' = current_order_id b"
  using assms
proof (cases rule: cancel_order_Returned)
  case (found a l l')
  show ?thesis
  proof (cases "is_buy (heap b ! a)")
    case True
    show ?thesis unfolding found(4) [OF True] by simp
  next
    case False
    show ?thesis unfolding found(5) [OF False] by simp
  qed
qed

lemma execute_trades_current:
  assumes "execute_trades b = Some (Returned msgs b')"
  shows "current_order_id b' = current_order_id b"
proof -
  have "loop_reaches b b'"
    using trade_loop_trace [OF assms [unfolded execute_trades_def]] by blast
  then show ?thesis by (rule loop_reaches_current)
qed

lemma add_order_current_below:
  assumes add: "add_order buy qty prc cli b = Returned i b'"
    and lo: "INT_MIN \<le> current_order_id b" and hi: "current_order_id b < INT_MAX"
  shows "i = current_order_id b + 1 \<and> current_order_id b' = i"
proof -
  have "int32 (current_order_id b + 1) = current_order_id b + 1"
    using lo hi by (intro int32_id) simp_all
  with add_order_Returned [OF add] show ?thesis by simp
qed

lemma early_op_current:
  assumes op: "early_op b b'" and lo: "INT_MIN \<le> current_order_id b"
  shows "current_order_id b \<le> current_order_id b'"
proof -
  from op have p: "public_op b b'" and hi: "current_order_id b < INT_MAX"
    by (simp_all add: early_op_def)
  from p lo hi show ?thesis
  proof (induction rule: public_op.induct)
    case (add_returned buy qty prc cli b i b')
    then show ?case using add_order_current_below [of buy qty prc cli b i b'] by simp
  next
    case (add_threw buy qty prc cli b e b')
    then show ?case by (auto dest: add_order_Threw)
  next
    case (cancel_returned i b u b')
    then show ?case by (simp add: cancel_order_current)
  next
    case (cancel_threw i b e b')
    then show ?case by (auto dest: cancel_order_Threw)
  next
    case (match_returned b msgs b')
    then show ?case by (simp add: execute_trades_current)
  qed
qed

lemma early_ops_current:
  "early_op\<^sup>*\<^sup>* b b' \<Longrightarrow> INT_MIN \<le> current_order_id b \<Longrightarrow>
     current_order_id b \<le> current_order_id b'"
proof (induction rule: rtranclp_induct)
  case base
  then show ?case by simp
next
  case (step y z)
  then have "current_order_id b \<le> current_order_id y" by simp
  moreover from this step.prems have "INT_MIN \<le> current_order_id y" by simp
  with step.hyps(2) have "current_order_id y \<le> current_order_id z" by (rule early_op_current)
  ultimately show ?case by simp
qed

subsection \<open>Evaluation of the scenarios\<close>

lemmas eval_defs = add_order_def empty_book_def int32_def level_add_order_def new_level_def
  Let_def loop_body_def trade_def get_best_bid_def get_best_ask_def slot0_def

lemma ask99_bid100_adds:
  "\<exists>b1. add_order False 10 99 1 empty_book = Returned 1 b1 \<and>
         add_order True 10 100 1 b1 = Returned 2 ask99_bid100"
  by (simp add: eval_defs ask99_bid100_def)

lemmas inv_defs = book_inv_def side_ok_def level_ok_def index_ok_def queue_total_def

lemma ask99_bid100_inv: "book_inv ask99_bid100"
  by (auto simp: inv_defs ask99_bid100_def split: if_splits)

lemma big_bid_adds:
  "add_order True 2147483647 100 1 empty_book = Returned 1 big_bid \<and>
   add_order True 1 100 1 big_bid = Returned 2 big_bid_wrapped"
  by (simp add: eval_defs big_bid_def big_bid_wrapped_def)

lemma big_bid_inv: "book_inv big_bid"
  by (auto simp: inv_defs big_bid_def split: if_splits)

lemma big_bid_wrapped_level:
  "bid_price_map big_bid_wrapped 100 =
     Some \<lparr>level_price = 100, orders = [0, 1], total_quantity = - 2147483648\<rparr> \<and>
   queue_total (heap big_bid_wrapped) [0, 1] = 2147483648"
  by (simp add: big_bid_wrapped_def queue_total_def)

lemma big_bid_wrapped_not_joint: "\<not> joint_inv big_bid_wrapped"
proof
  assume "joint_inv big_bid_wrapped"
  then have "total_quantity \<lparr>level_price = 100, orders = [0, 1], total_quantity = - 2147483648\<rparr> =
      queue_total (heap big_bid_wrapped)
        (orders \<lparr>level_price = 100, orders = [0, 1], total_quantity = - 2147483648\<rparr>)"
    unfolding joint_inv_def using big_bid_wrapped_level by blast
  then show False using big_bid_wrapped_level by simp
qed

lemma spent_Suc:
  "spent (Suc n) = spent n @ [\<lparr>order_id = int n + 1, is_buy = True, quantity = 1, price = 1, client_id = 0\<rparr>]"
  by (simp add: spent_def)

lemma length_spent [simp]: "length (spent n) = n"
  by (simp add: spent_def)

lemma spent_nth_last [simp]: "(spent n @ [x]) ! n = x"
  by (simp add: nth_append)

lemma idle_book_0: "idle_book 0 = empty_book"
  by (simp add: idle_book_def empty_book_def spent_def)

lemma idle_book_add:
  assumes "int n < INT_MAX"
  shows "add_order True 1 1 0 (idle_book n) = Returned (int n + 1) (busy_book n)"
proof -
  have "int32 (int n + 1) = int n + 1"
    using assms by (intro int32_id) (simp_all add: INT_MIN_def)
  moreover have "int32 1 = 1" by (simp add: int32_def)
  ultimately show ?thesis
    by (simp add: add_order_def Let_def idle_book_def busy_book_def spent_Suc
        level_add_order_def new_level_def)
qed

lemma busy_book_cancel:
  "cancel_order (int n + 1) (busy_book n) = Returned () (idle_book (Suc n))"
  by (simp add: cancel_order_def Let_def busy_book_def idle_book_def spent_Suc
      level_remove_order_def add.commute)

lemma idle_book_reachable: "int n \<le> INT_MAX \<Longrightarrow> public_op\<^sup>*\<^sup>* empty_book (idle_book n)"
proof (induction n)
  case 0
  then show ?case by (simp add: idle_book_0)
next
  case (Suc n)
  then have below: "int n < INT_MAX" by simp
  then have "public_op\<^sup>*\<^sup>* empty_book (idle_book n)" using Suc.IH by simp
  moreover have "public_op (idle_book n) (busy_book n)"
    using idle_book_add [OF below] by (rule add_returned)
  moreover have "public_op (busy_book n) (idle_book (Suc n))"
    using busy_book_cancel by (rule cancel_returned)
  ultimately show ?case by simp
qed

lemma ask99_bid100_match:
  "execute_trades ask99_bid100 = Some (Returned [TRADE 2 1 10 99]
     (ask99_bid100\<lparr>heap := [\<lparr>order_id = 1, is_buy = False, quantity = 0, price = 99, client_id = 1\<rparr>,
              \<lparr>order_id = 2, is_buy = True, quantity = 0, price = 100, client_id = 1\<rparr>],
        bid_prices := {}, ask_prices := {}, bid_price_map := Map.empty, ask_price_map := Map.empty,
        order_id_map := Map.empty\<rparr>))"
  unfolding execute_trades_def
  apply (subst trade_loop.simps)
  apply (simp add: eval_defs ask99_bid100_def)
  apply (subst trade_loop.simps)
  apply (simp add: eval_defs)
  done

lemma bid100_ask99_match:
  "\<exists>b1 b2 b3. add_order True 10 100 c1 empty_book = Returned 1 b1 \<and>
     add_order False 10 99 c2 b1 = Returned 2 b2 \<and>
     execute_trades b2 = Some (Returned [TRADE 1 2 10 99] b3)"
  unfolding execute_trades_def
  apply (simp add: eval_defs)
  apply (subst trade_loop.simps)
  apply (simp add: eval_defs)
  apply (subst trade_loop.simps)
  apply (simp add: eval_defs)
  done

lemma ask99_bid100_scenario:
  "\<exists>b1 b2 b3. add_order False 10 99 c1 empty_book = Returned 1 b1 \<and>
     add_order True 10 100 c2 b1 = Returned 2 b2 \<and>
     execute_trades b2 = Some (Returned [TRADE 2 1 10 99] b3)"
  unfolding execute_trades_def
  apply (simp add: eval_defs)
  apply (subst trade_loop.simps)
  apply (simp add: eval_defs)
  apply (subst trade_loop.simps)
  apply (simp add: eval_defs)
  done

lemma traded_price:
  assumes "loop_body s = Traded m s'"
  shows "ask_prices s \<noteq> {} \<and> trade_price m = Min (ask_prices s)"
proof -
  have ne: "ask_prices s \<noteq> {}"
    using assms by (auto simp: loop_body_def Let_def get_best_ask_def split: if_splits)
  from assms have "trade_price m = get_best_ask s"
  proof (cases rule: loop_body_Traded)
    case (1 bl al)
    show ?thesis by (simp add: trade_fields(1) [OF 1(5)])
  qed
  with ne show ?thesis by (simp add: get_best_ask_def)
qed

lemma floor_rat_numeral: "\<lfloor>numeral a / numeral b :: rat\<rfloor> = numeral a div numeral b"
  using floor_divide_of_int_eq [of "numeral a" "numeral b", where ?'a = rat] by simp

lemmas snapshot_defs = get_order_book_string_def double_to_int_def INT_MIN_def INT_MAX_def
  string_of_int_def
  floor_rat_numeral

subsection \<open>Claims\<close>

text \<open>
  Claim C1. For every book that satisfies the book invariant, \<open>execute_trades\<close> returns, and
  in the book it leaves the bid side is empty, or the ask side is empty, or the highest bid
  price is strictly below the lowest ask price.
\<close>

theorem match_leaves_no_cross:
  assumes "book_inv b"
  shows "\<exists>msgs b'. execute_trades b = Some (Returned msgs b') \<and>
           (bid_prices b' = {} \<or> ask_prices b' = {} \<or> Max (bid_prices b') < Min (ask_prices b'))"
  using trade_loop_returns [OF assms, of "[]"] unfolding execute_trades_def no_cross_def by blast

theorem match_leaves_no_cross_witness:
  "book_inv ask99_bid100 \<and>
   (\<exists>msgs b'. execute_trades ask99_bid100 = Some (Returned msgs b') \<and>
           (bid_prices b' = {} \<or> ask_prices b' = {} \<or> Max (bid_prices b') < Min (ask_prices b')))"
  using match_leaves_no_cross [OF ask99_bid100_inv] ask99_bid100_inv by simp

text \<open>
  Claim C2. Every trade that \<open>execute_trades\<close> emits is made in some pass of its loop, and its
  price is the lowest ask price of the book at the top of that pass, whichever of the two orders
  was added later. In particular, after \<open>add(sell, 10, 99)\<close> (id 1) and
  \<open>add(buy, 10, 100)\<close> (id 2) on the empty book, the call yields exactly
  \<open>TRADE 2 1 10 99\<close>; with the two orders added the other way round it yields
  \<open>TRADE 1 2 10 99\<close>, again at the ask price.
\<close>

theorem trade_price_is_best_ask:
  "(execute_trades b = Some (Returned msgs b') \<longrightarrow>
      (\<forall>m \<in> set msgs. \<exists>s s'. loop_reaches b s \<and> loop_body s = Traded m s' \<and>
                           ask_prices s \<noteq> {} \<and> trade_price m = Min (ask_prices s))) \<and>
   (\<exists>b1 b2 b3. add_order False 10 99 c1 empty_book = Returned 1 b1 \<and>
      add_order True 10 100 c2 b1 = Returned 2 b2 \<and>
      execute_trades b2 = Some (Returned [TRADE 2 1 10 99] b3)) \<and>
   (\<exists>b1 b2 b3. add_order True 10 100 c1 empty_book = Returned 1 b1 \<and>
      add_order False 10 99 c2 b1 = Returned 2 b2 \<and>
      execute_trades b2 = Some (Returned [TRADE 1 2 10 99] b3))"
proof (intro conjI impI ballI)
  fix m
  assume "execute_trades b = Some (Returned msgs b')" "m \<in> set msgs"
  then obtain s s' where "loop_reaches b s" "loop_body s = Traded m s'"
    using execute_trades_emitted by blast
  then show "\<exists>s s'. loop_reaches b s \<and> loop_body s = Traded m s' \<and>
                ask_prices s \<noteq> {} \<and> trade_price m = Min (ask_prices s)"
    using traded_price by blast
qed (rule ask99_bid100_scenario bid100_ask99_match)+

theorem trade_price_is_best_ask_witness:
  "\<exists>b'. execute_trades ask99_bid100 = Some (Returned [TRADE 2 1 10 99] b') \<and>
     (\<forall>m \<in> set [TRADE 2 1 10 99]. \<exists>s s'. loop_reaches ask99_bid100 s \<and> loop_body s = Traded m s' \<and>
                           ask_prices s \<noteq> {} \<and> trade_price m = Min (ask_prices s))"
  using trade_price_is_best_ask [of ask99_bid100 "[TRADE 2 1 10 99]"] ask99_bid100_match
  by blast

text \<open>
  Claim C3, evaluated on its own scenario: \<open>add(buy, 5, 100)\<close> (id 1),
  \<open>add(buy, 5, 100)\<close> (id 2), \<open>add(sell, 5, 100)\<close> (id 3), then \<open>execute_trades\<close>.
  The call yields exactly \<open>TRADE 1 3 5 100\<close>, so the older bid is filled first, and the
  younger bid, id 2, stays in the queue of level 100 with a remaining quantity of 5. But in
  \<open>order_id_map\<close> it is id 2 that has been erased, while id 1, the filled order with nothing
  remaining, is still there, and \<open>cancel_order(2)\<close> throws "Order not found": the id erased
  is read through \<open>bid_order\<close> after the front of the queue has been erased.
\<close>

theorem fifo_scenario_index_entries:
  "\<exists>b1 b2 b3 b4.
     add_order True 5 100 c1 empty_book = Returned 1 b1 \<and>
     add_order True 5 100 c2 b1 = Returned 2 b2 \<and>
     add_order False 5 100 c3 b2 = Returned 3 b3 \<and>
     execute_trades b3 = Some (Returned [TRADE 1 3 5 100] b4) \<and>
     bid_price_map b4 100 = Some \<lparr>level_price = 100, orders = [1], total_quantity = 5\<rparr> \<and>
     order_id (heap b4 ! 1) = 2 \<and> quantity (heap b4 ! 1) = 5 \<and>
     order_id (heap b4 ! 0) = 1 \<and> quantity (heap b4 ! 0) = 0 \<and>
     order_id_map b4 1 = Some 0 \<and>
     order_id_map b4 2 = None \<and>
     cancel_order 2 b4 = Threw OrderNotFound b4"
  unfolding execute_trades_def
  apply (simp add: eval_defs)
  apply (subst trade_loop.simps)
  apply (simp add: eval_defs)
  apply (subst trade_loop.simps)
  apply (simp add: eval_defs cancel_order_def)
  done

text \<open>
  Claim C4, as stated, fails for \<open>add_order\<close>: \<open>total_quantity += order->quantity\<close> is not
  range-checked. After \<open>add(buy, 2147483647, 100)\<close> on the empty book the book satisfies the
  invariants; \<open>add(buy, 1, 100)\<close> then returns id 2 and leaves level 100 with
  \<open>total_quantity = -2147483648\<close>, while the remaining quantities of its queue sum up to
  2147483648.
\<close>

theorem level_total_wraps_counterexample:
  "add_order True 2147483647 100 1 empty_book = Returned 1 big_bid \<and>
   book_inv big_bid \<and> joint_inv big_bid \<and>
   add_order True 1 100 1 big_bid = Returned 2 big_bid_wrapped \<and>
   bid_price_map big_bid_wrapped 100 =
     Some \<lparr>level_price = 100, orders = [0, 1], total_quantity = - 2147483648\<rparr> \<and>
   queue_total (heap big_bid_wrapped) [0, 1] = 2147483648 \<and>
   \<not> joint_inv big_bid_wrapped"
  using big_bid_adds big_bid_inv book_inv_joint [OF big_bid_inv] big_bid_wrapped_level
    big_bid_wrapped_not_joint
  by simp

text \<open>
  Claim C4, amended: every public method keeps the state invariant of the specification,
  provided that in an \<open>add_order\<close> the total of the level plus the new quantity does not
  exceed \<open>INT_MAX\<close>. If the levels of the book are sound (\<open>levels_inv\<close>, which holds for the
  empty book and contains the state invariant) and a call of \<open>add_order\<close> with that proviso,
  of \<open>cancel_order\<close> or of \<open>execute_trades\<close> comes back, by returning or by throwing, then
  in the book it leaves every level has \<open>total_quantity\<close> equal to the sum of the remaining
  quantities of its queue, and no level has a total of zero or an empty queue. The levels
  are sound again, so this goes on for the next call. Nothing is asked of
  \<open>current_order_id\<close>.
\<close>

theorem public_ops_keep_joint_inv_while_totals_fit:
  assumes inv: "levels_inv b"
  shows "joint_inv b \<and>
    (add_order buy qty prc cli b = Returned i b' \<and> total_fits buy qty prc b \<longrightarrow>
       levels_inv b' \<and> joint_inv b') \<and>
    (add_order buy qty prc cli b = Threw e b' \<longrightarrow> levels_inv b' \<and> joint_inv b') \<and>
    (cancel_order k b = Returned u b' \<longrightarrow> levels_inv b' \<and> joint_inv b') \<and>
    (cancel_order k b = Threw e b' \<longrightarrow> levels_inv b' \<and> joint_inv b') \<and>
    (execute_trades b = Some (Returned msgs b') \<longrightarrow> levels_inv b' \<and> joint_inv b')"
proof (intro conjI impI)
  show "joint_inv b" using inv by (rule levels_joint)
next
  assume "add_order buy qty prc cli b = Returned i b' \<and> total_fits buy qty prc b"
  then have "levels_inv b'" using inv by (blast intro: add_order_levels)
  then show "levels_inv b'" "joint_inv b'" by (simp_all add: levels_joint)
next
  assume "add_order buy qty prc cli b = Threw e b'"
  then have "b' = b" by (rule add_order_Threw)
  then show "levels_inv b'" "joint_inv b'" using inv by (simp_all add: levels_joint)
next
  assume "cancel_order k b = Returned u b'"
  with inv have "levels_inv b'" by (rule cancel_order_levels)
  then show "levels_inv b'" "joint_inv b'" by (simp_all add: levels_joint)
next
  assume "cancel_order k b = Threw e b'"
  then have "b' = b" by (rule cancel_order_Threw)
  then show "levels_inv b'" "joint_inv b'" using inv by (simp_all add: levels_joint)
next
  assume "execute_trades b = Some (Returned msgs b')"
  with inv have "levels_inv b'" by (rule execute_trades_levels)
  then show "levels_inv b'" "joint_inv b'" by (simp_all add: levels_joint)
qed

theorem public_ops_keep_joint_inv_while_totals_fit_witness:
  "levels_inv ask99_bid100 \<and> total_fits True 5 100 ask99_bid100 \<and>
   (\<exists>b'. add_order True 5 100 1 ask99_bid100 = Returned 3 b' \<and> levels_inv b' \<and> joint_inv b') \<and>
   (\<exists>b'. execute_trades ask99_bid100 = Some (Returned [TRADE 2 1 10 99] b') \<and>
      levels_inv b' \<and> joint_inv b')"
proof -
  have lv: "levels_inv ask99_bid100"
    using ask99_bid100_inv by (rule book_inv_levels)
  have fits: "total_fits True 5 100 ask99_bid100"
    by (simp add: total_fits_def level_total_def ask99_bid100_def INT_MAX_def)
  obtain b1 where b1: "add_order True 5 100 1 ask99_bid100 = Returned 3 b1"
    by (simp add: eval_defs ask99_bid100_def)
  note T = public_ops_keep_joint_inv_while_totals_fit [OF lv]
  have 1: "levels_inv b1 \<and> joint_inv b1"
    by (rule T [THEN conjunct2, THEN conjunct1, THEN mp, OF conjI [OF b1 fits]])
  have 2: "levels_inv b' \<and> joint_inv b'"
    if "execute_trades ask99_bid100 = Some (Returned [TRADE 2 1 10 99] b')" for b'
    by (rule T [THEN conjunct2, THEN conjunct2, THEN conjunct2, THEN conjunct2, THEN conjunct2,
          THEN mp, OF that])
  from lv fits b1 1 2 ask99_bid100_match show ?thesis by blast
qed

text \<open>
  Claim C5. \<open>add_order\<close> throws \<open>std::invalid_argument\<close> if and only if the quantity or
  the price is not positive, it throws nothing else, and the book after the throw is the book
  before the call.
\<close>

theorem add_order_invalid_argument:
  "((\<exists>b'. add_order buy qty prc cli b = Threw InvalidArgument b') \<longleftrightarrow> qty \<le> 0 \<or> prc \<le> 0) \<and>
   (\<forall>e b'. add_order buy qty prc cli b = Threw e b' \<longrightarrow> e = InvalidArgument \<and> b' = b)"
  unfolding add_order_def Let_def by (auto split: option.splits)

theorem add_order_invalid_argument_witness:
  "((0::int) \<le> 0 \<or> (100::rat) \<le> 0) \<and>
   add_order True 0 100 1 ask99_bid100 = Threw InvalidArgument ask99_bid100"
  using add_order_invalid_argument [of True 0 100 1 ask99_bid100] by auto

text \<open>
  Claim C6, evaluated after a fill. With \<open>add(buy, 5, 100)\<close> (id 1),
  \<open>add(buy, 5, 100)\<close> (id 2) and \<open>add(sell, 10, 100)\<close> (id 3), \<open>execute_trades\<close> fills
  all three orders and empties the book, but id 1 is still in \<open>order_id_map\<close>:
  \<open>cancel_order(1)\<close> does not throw "Order not found", it dereferences the null pointer that
  \<open>bid_price_map[100]\<close> has just entered. With a sell of 5 instead, id 1 is filled, id 2 rests,
  and \<open>cancel_order(1)\<close> throws the exception of \<open>PriceLevel::remove_order\<close>.
\<close>

theorem cancel_after_fill_scenarios:
  "(\<exists>b1 b2 b3 b4.
     add_order True 5 100 c1 empty_book = Returned 1 b1 \<and>
     add_order True 5 100 c2 b1 = Returned 2 b2 \<and>
     add_order False 10 100 c3 b2 = Returned 3 b3 \<and>
     execute_trades b3 = Some (Returned [TRADE 1 3 5 100, TRADE 2 3 5 100] b4) \<and>
     bid_prices b4 = {} \<and> ask_prices b4 = {} \<and>
     order_id_map b4 1 = Some 0 \<and> quantity (heap b4 ! 0) = 0 \<and>
     cancel_order 1 b4 = Undefined) \<and>
   (\<exists>b1 b2 b3 b4.
     add_order True 5 100 c1 empty_book = Returned 1 b1 \<and>
     add_order True 5 100 c2 b1 = Returned 2 b2 \<and>
     add_order False 5 100 c3 b2 = Returned 3 b3 \<and>
     execute_trades b3 = Some (Returned [TRADE 1 3 5 100] b4) \<and>
     order_id_map b4 1 = Some 0 \<and> quantity (heap b4 ! 0) = 0 \<and>
     cancel_order 1 b4 = Threw OrderNotFoundInLevel b4)"
  unfolding execute_trades_def
  apply (rule conjI)
   apply (simp add: eval_defs)
   apply (subst trade_loop.simps)
   apply (simp add: eval_defs)
   apply (subst trade_loop.simps)
   apply (simp add: eval_defs)
   apply (subst trade_loop.simps)
   apply (simp add: eval_defs cancel_order_def)
  apply (simp add: eval_defs)
  apply (subst trade_loop.simps)
  apply (simp add: eval_defs)
  apply (subst trade_loop.simps)
  apply (simp add: eval_defs cancel_order_def level_remove_order_def)
  done



text \<open>
  Claim C8, as stated, fails when \<open>current_order_id\<close> has reached \<open>INT_MAX\<close>:
  \<open>current_order_id++\<close> is not range-checked. After 2147483646 rounds of \<open>add\<close> and
  \<open>cancel\<close> on the empty book, the next \<open>add\<close> returns 2147483647, and, that order
  cancelled, the \<open>add\<close> after it returns -2147483648, which is neither greater than the
  id before nor positive.
\<close>

theorem id_counter_wraps_counterexample:
  "public_op\<^sup>*\<^sup>* empty_book (idle_book 2147483646) \<and>
   add_order True 1 1 0 (idle_book 2147483646) = Returned 2147483647 (busy_book 2147483646) \<and>
   cancel_order 2147483647 (busy_book 2147483646) = Returned () (idle_book 2147483647) \<and>
   returned (add_order True 1 1 0 (idle_book 2147483647)) = Some (- 2147483648) \<and>
   \<not> (2147483647 :: int) < - 2147483648 \<and> \<not> (0 :: int) < - 2147483648"
proof -
  have "public_op\<^sup>*\<^sup>* empty_book (idle_book 2147483646)"
    by (rule idle_book_reachable) (simp add: INT_MAX_def)
  moreover have "add_order True 1 1 0 (idle_book 2147483646) = Returned 2147483647 (busy_book 2147483646)"
    using idle_book_add [of 2147483646] by (simp add: INT_MAX_def)
  moreover have "cancel_order 2147483647 (busy_book 2147483646) = Returned () (idle_book 2147483647)"
    using busy_book_cancel [of 2147483646] by simp
  moreover have "returned (add_order True 1 1 0 (idle_book 2147483647)) = Some (- 2147483648)"
    by (simp add: add_order_def Let_def idle_book_def int32_def returned_def)
  ultimately show ?thesis by simp
qed

text \<open>
  Claim C8, amended: as long as \<open>current_order_id\<close> is below \<open>INT_MAX\<close> (2147483647) before
  each call, the ids that \<open>add_order\<close> returns increase strictly: an id returned later, after
  any number of calls of the public methods in between, is greater than an id returned
  earlier. Under the same proviso every id returned on a book reached from the empty book is
  positive. The first \<open>add_order\<close> on the empty book with a positive quantity and price
  returns 1.
\<close>

theorem add_order_ids_increase_below_INT_MAX:
  "(add_order buy qty prc cli b = Returned i b1 \<and> early_op\<^sup>*\<^sup>* b1 b2 \<and>
      current_order_id b2 < INT_MAX \<and>
      add_order buy' qty' prc' cli' b2 = Returned j b3 \<longrightarrow> i < j) \<and>
   (early_op\<^sup>*\<^sup>* empty_book b \<and> current_order_id b < INT_MAX \<and>
      add_order buy qty prc cli b = Returned i b1 \<longrightarrow> 0 < i) \<and>
   (0 < qty \<and> 0 < prc \<longrightarrow> (\<exists>b1. add_order buy qty prc cli empty_book = Returned 1 b1))"
proof (intro conjI impI; (elim conjE)?)
  assume 1: "add_order buy qty prc cli b = Returned i b1" and r: "early_op\<^sup>*\<^sup>* b1 b2"
    and below: "current_order_id b2 < INT_MAX"
    and 2: "add_order buy' qty' prc' cli' b2 = Returned j b3"
  have "current_order_id b1 = int32 (current_order_id b + 1)" and i: "current_order_id b1 = i"
    using add_order_Returned [OF 1] by simp_all
  then have lo1: "INT_MIN \<le> current_order_id b1" using int32_range by simp
  have le: "current_order_id b1 \<le> current_order_id b2"
    using r lo1 by (rule early_ops_current)
  with lo1 have "INT_MIN \<le> current_order_id b2" by simp
  from add_order_current_below [OF 2 this below] have "j = current_order_id b2 + 1" by simp
  with le i show "i < j" by simp
next
  assume r: "early_op\<^sup>*\<^sup>* empty_book b" and below: "current_order_id b < INT_MAX"
    and 1: "add_order buy qty prc cli b = Returned i b1"
  have c0: "current_order_id empty_book = 0" by (simp add: empty_book_def)
  then have "INT_MIN \<le> current_order_id empty_book" by (simp add: INT_MIN_def)
  from early_ops_current [OF r this] c0 have ge: "0 \<le> current_order_id b" by simp
  then have "INT_MIN \<le> current_order_id b" by (simp add: INT_MIN_def)
  from add_order_current_below [OF 1 this below] have "i = current_order_id b + 1" by simp
  with ge show "0 < i" by simp
next
  assume "0 < qty" "0 < prc"
  then show "\<exists>b1. add_order buy qty prc cli empty_book = Returned 1 b1"
    by (simp add: add_order_def empty_book_def Let_def int32_def)
qed

theorem add_order_ids_increase_below_INT_MAX_witness:
  "\<exists>b1. add_order False 10 99 1 empty_book = Returned 1 b1 \<and>
      early_op\<^sup>*\<^sup>* empty_book empty_book \<and> current_order_id empty_book < INT_MAX \<and>
      early_op\<^sup>*\<^sup>* b1 b1 \<and> current_order_id b1 < INT_MAX \<and>
      add_order True 10 100 1 b1 = Returned 2 ask99_bid100 \<and>
      (0::int) < 1 \<and> (1::int) < 2"
proof -
  from ask99_bid100_adds obtain b1 where
    1: "add_order False 10 99 1 empty_book = Returned 1 b1"
    and 2: "add_order True 10 100 1 b1 = Returned 2 ask99_bid100" by blast
  have r0: "early_op\<^sup>*\<^sup>* empty_book empty_book" and r1: "early_op\<^sup>*\<^sup>* b1 b1" by simp_all
  have c0: "current_order_id empty_book < INT_MAX"
    by (simp add: empty_book_def INT_MAX_def)
  have "current_order_id b1 = 1" using add_order_Returned [OF 1] by simp
  then have c1: "current_order_id b1 < INT_MAX" by (simp add: INT_MAX_def)
  have lt: "(1::int) < 2"
    by (rule add_order_ids_increase_below_INT_MAX [THEN conjunct1, THEN mp,
          OF conjI [OF 1 conjI [OF r1 conjI [OF c1 2]]]])
  have pos: "(0::int) < 1"
    by (rule add_order_ids_increase_below_INT_MAX [THEN conjunct2, THEN conjunct1, THEN mp,
          OF conjI [OF r0 conjI [OF c0 1]]])
  from 1 2 r0 r1 c0 c1 lt pos show ?thesis by blast
qed

text \<open>
  Claim C9, evaluated on fractional prices. With one bid at 99.5 the snapshot throws
  \<open>std::out_of_range\<close>: the price has become the \<open>int\<close> 99, and there is no level at 99.
  With bids of 10 at 99 and of 7 at 99.5 it prints the level at 99 twice and the level at 99.5
  not at all.
\<close>

theorem snapshot_drops_fractions:
  "(\<exists>b1. add_order True 10 (199 / 2) c1 empty_book = Returned 1 b1 \<and>
      get_order_book_string b1 = Threw OutOfRange b1) \<and>
   (\<exists>b1 b2. add_order True 10 99 c1 empty_book = Returned 1 b1 \<and>
      add_order True 7 (199 / 2) c2 b1 = Returned 2 b2 \<and>
      get_order_book_string b2 =
        Returned (''BIDS:'' @ [CHR 0x0A] @ ''  99 : 10'' @ [CHR 0x0A] @ ''  99 : 10'' @ [CHR 0x0A] @
                  ''ASKS:'' @ [CHR 0x0A]) b2)"
  apply (rule conjI)
   apply (simp add: eval_defs snapshot_defs)
  apply (simp add: eval_defs snapshot_defs string_of_nat.simps)
  done

text \<open>
  Claim C10. For every book that satisfies the book invariant, every trade that
  \<open>execute_trades\<close> emits has a quantity of at least 1, so never zero or negative, and is
  made in a pass of the loop at whose top its \<open>buy_id\<close> is the id of a buy order resting in
  a bid queue and its \<open>sell_id\<close> the id of a sell order resting in an ask queue.
\<close>

theorem trades_are_positive_and_between_resting_orders:
  assumes inv: "book_inv b" and ex: "execute_trades b = Some (Returned msgs b')" and m: "m \<in> set msgs"
  shows "1 \<le> trade_quantity m \<and>
         (\<exists>s s'. loop_reaches b s \<and> loop_body s = Traded m s' \<and>
                 resting s True (buy_id m) \<and> resting s False (sell_id m))"
proof -
  from execute_trades_emitted [OF ex m] obtain s s' where
    rs: "loop_reaches b s" and tr: "loop_body s = Traded m s'" by blast
  have invs: "book_inv s" using rs inv by (rule loop_reaches_inv)
  from tr obtain bl al where
    bl: "bid_price_map s (get_best_bid s) = Some bl" and al: "ask_price_map s (get_best_ask s) = Some al"
    and ne: "orders bl \<noteq> []" "orders al \<noteq> []"
    and t: "trade s (get_best_bid s) (get_best_ask s) bl al = (m, s')"
    by (rule loop_body_Traded)
  have q: "1 \<le> trade_quantity m" using invs bl al t by (rule trade_inv(3))
  have lokb: "level_ok (heap s) (current_order_id s) True (get_best_bid s) bl"
    and loka: "level_ok (heap s) (current_order_id s) False (get_best_ask s) al"
    using invs bl al by (simp_all add: book_inv_def side_ok_def)
  have hb: "hd (orders bl) \<in> set (orders bl)" and ha: "hd (orders al) \<in> set (orders al)"
    using ne by simp_all
  have ids: "buy_id m = order_id (heap s ! hd (orders bl))" "sell_id m = order_id (heap s ! hd (orders al))"
    by (simp_all add: trade_fields(1) [OF t])
  have "resting s True (buy_id m)"
    unfolding resting_def using bl hb lokb ids(1)
    by (intro exI [of _ "get_best_bid s"] exI [of _ bl] exI [of _ "hd (orders bl)"]) (simp add: level_ok_def)
  moreover have "resting s False (sell_id m)"
    unfolding resting_def using al ha loka ids(2)
    by (intro exI [of _ "get_best_ask s"] exI [of _ al] exI [of _ "hd (orders al)"]) (simp add: level_ok_def)
  ultimately show ?thesis using q rs tr by blast
qed

theorem trades_are_positive_and_between_resting_orders_witness:
  "book_inv ask99_bid100 \<and>
   (\<exists>b'. execute_trades ask99_bid100 = Some (Returned [TRADE 2 1 10 99] b')) \<and>
   TRADE 2 1 10 99 \<in> set [TRADE 2 1 10 99] \<and>
   1 \<le> trade_quantity (TRADE 2 1 10 99) \<and>
   (\<exists>s s'. loop_reaches ask99_bid100 s \<and> loop_body s = Traded (TRADE 2 1 10 99) s' \<and>
           resting s True (buy_id (TRADE 2 1 10 99)) \<and> resting s False (sell_id (TRADE 2 1 10 99)))"
  using trades_are_positive_and_between_resting_orders [OF ask99_bid100_inv ask99_bid100_match, of "TRADE 2 1 10 99"]
    ask99_bid100_inv ask99_bid100_match
  by simp


end
